theory Spec2Isabelle
  imports Main "HOL-Library.Multiset"
begin

section \<open>Dates of the JavaScript runtime\<close>

text \<open>
  A JavaScript \<open>Date\<close> is an instant: the number of milliseconds since the epoch, an
  integer. Local time is the instant shifted by a fixed offset \<open>tz\<close> (milliseconds east
  of UTC; daylight saving is not modelled). A calendar-day string (\<open>toDateString\<close>, the
  \<open>YYYY-MM-DD\<close> strings of the exception list) is represented by the number of the day
  it names, counted from the epoch: two such strings are equal exactly when they name
  the same day (years 1000 to 9999, where the local template literal and the ISO format
  agree on the layout).
\<close>

type_synonym date = int

definition localDay :: "int \<Rightarrow> date \<Rightarrow> int" where
  "localDay tz d = (d + tz) div 86400000"

definition setHours :: "int \<Rightarrow> date \<Rightarrow> int \<Rightarrow> int \<Rightarrow> date" where
  \<comment> \<open>\<open>d.setHours(h, m, 0, 0)\<close>: local day of \<open>d\<close>, at \<open>h:m:00.000\<close> local time\<close>
  "setHours tz d h m = localDay tz d * 86400000 + h * 3600000 + m * 60000 - tz"

definition getHours :: "int \<Rightarrow> date \<Rightarrow> int" where
  "getHours tz d = ((d + tz) mod 86400000) div 3600000"

definition getMinutes :: "int \<Rightarrow> date \<Rightarrow> int" where
  "getMinutes tz d = ((d + tz) mod 3600000) div 60000"

definition getDay :: "int \<Rightarrow> date \<Rightarrow> int" where
  \<comment> \<open>day of the week, Sunday = 0; the epoch was a Thursday\<close>
  "getDay tz d = (localDay tz d + 4) mod 7"

definition toDateString :: "int \<Rightarrow> date \<Rightarrow> int" where
  "toDateString tz d = localDay tz d"

definition localDateString :: "int \<Rightarrow> date \<Rightarrow> int" where
  \<comment> \<open>the template literal built from \<open>getFullYear\<close>, \<open>getMonth\<close> and \<open>getDate\<close>\<close>
  "localDateString tz d = localDay tz d"

definition isoDateString :: "date \<Rightarrow> int" where
  \<comment> \<open>\<open>d.toISOString().split('T')[0]\<close>: the calendar day in UTC\<close>
  "isoDateString d = d div 86400000"

definition ceilDiv :: "int \<Rightarrow> int \<Rightarrow> int" where
  \<comment> \<open>\<open>Math.ceil(a / b)\<close> on integers, \<open>b\<close> positive\<close>
  "ceilDiv a b = - ((- a) div b)"

definition js_slice :: "'a list \<Rightarrow> int \<Rightarrow> int \<Rightarrow> 'a list" where
  \<comment> \<open>\<open>xs.slice(start, end)\<close>: negative indices count from the end, both are clamped\<close>
  "js_slice xs start fin =
     (let len = int (length xs);
          k = (if start < 0 then max (len + start) 0 else min start len);
          final = (if fin < 0 then max (len + fin) 0 else min fin len)
      in take (nat (final - k)) (drop (nat k) xs))"

fun findIndex :: "('a \<Rightarrow> bool) \<Rightarrow> 'a list \<Rightarrow> nat option" where
  "findIndex P [] = None"
| "findIndex P (x # xs) =
     (if P x then Some 0 else map_option Suc (findIndex P xs))"

section \<open>Data model\<close>

text \<open>
  Modelled from the spec: the declarations of \<open>Task\<close>, \<open>TimeBlock\<close>, \<open>UnavailableBlock\<close>,
  \<open>Priority\<close> and \<open>BlockType\<close> (the module \<open>@/types/task\<close>) are not among the sources. The
  records below have the fields that the scheduler reads and writes, with the types of
  section 3 of the specification; an optional field is an \<open>option\<close>. Numbers are
  integers (durations are parsed with \<open>parseInt\<close>); a recurrence rule is daily or weekly.
\<close>

datatype Priority = Low | Medium | High

datatype TaskType = Work | Study | Leisure

datatype BlockType = BTask | BBreak | BUnavailable

record Task =
  t_id :: string
  t_name :: string
  duration :: int
  deadline :: date
  priority :: Priority
  t_type :: TaskType
  completed :: bool
  scheduledTime :: "date option"
  createdAt :: date

datatype RecurType = Daily | Weekly

record Recurring =
  r_type :: RecurType
  days :: "int list option"
  exceptions :: "int list option"

record UnavailableBlock =
  u_id :: string
  u_startTime :: date
  u_endTime :: date
  u_title :: string
  u_description :: "string option"
  recurring :: "Recurring option"

text \<open>
  The identifiers and descriptions of time blocks are template literals; they are kept
  as their interpolated parts (the prefix as the constructor).
\<close>

datatype BlockId =
    UnavailableId string int
  | ScheduledId string int
  | TaskId string int
  | BreakId BlockId BlockId

datatype Descr = Plain string | TaskSummary TaskType Priority int

record TimeBlock =
  b_id :: BlockId
  b_type :: BlockType
  taskId :: "string option"
  task :: "Task option"
  startTime :: date
  endTime :: date
  title :: string
  description :: "Descr option"
  isFixed :: "bool option"

record Slot =
  s_start :: date
  s_end :: date
  available :: bool

text \<open>The mutable fields of a \<open>TimetableScheduler\<close> object.\<close>

record Scheduler =
  tasks :: "Task list"
  unavailableBlocks :: "UnavailableBlock list"

datatype error = TypeError

definition dayStart :: int where "dayStart = 6"
definition dayEnd :: int where "dayEnd = 23"
definition shortBreakDuration :: int where "shortBreakDuration = 15"
definition longBreakDuration :: int where "longBreakDuration = 30"
definition maxContinuousWork :: int where "maxContinuousWork = 90"

definition newScheduler :: Scheduler where
  "newScheduler = \<lparr>tasks = [], unavailableBlocks = []\<rparr>"

section \<open>The scheduler\<close>

text \<open>
  Every method takes the time zone offset \<open>tz\<close> and the reading \<open>clock\<close> of the system
  clock (\<open>new Date()\<close>; all readings within one call give the same instant), and the
  scheduler object where it reads or writes its fields.
\<close>

definition setTasks :: "Scheduler \<Rightarrow> Task list \<Rightarrow> Scheduler" where
  "setTasks s ts = s\<lparr>tasks := filter (\<lambda>task. \<not> completed task) ts\<rparr>"

definition setUnavailableBlocks :: "Scheduler \<Rightarrow> UnavailableBlock list \<Rightarrow> Scheduler" where
  "setUnavailableBlocks s blocks = s\<lparr>unavailableBlocks := blocks\<rparr>"

definition nowOf :: "date \<Rightarrow> date option \<Rightarrow> date" where
  \<comment> \<open>\<open>currentTime || new Date()\<close>\<close>
  "nowOf clock currentTime = (case currentTime of Some c \<Rightarrow> c | None \<Rightarrow> clock)"

definition js_includes :: "'a list option \<Rightarrow> 'a \<Rightarrow> bool option" where
  \<comment> \<open>\<open>xs?.includes(x)\<close>\<close>
  "js_includes xs x = map_option (\<lambda>l. x \<in> set l) xs"

definition shouldIncludeBlock :: "int \<Rightarrow> UnavailableBlock \<Rightarrow> date \<Rightarrow> bool" where
  \<comment> \<open>\<open>timetable-scheduler.ts\<close>, lines 88-110\<close>
  "shouldIncludeBlock tz block date =
     (case recurring block of
        None \<Rightarrow>
          (let blockDate = u_startTime block; targetDate = date
           in toDateString tz blockDate = toDateString tz targetDate)
      | Some rec \<Rightarrow>
          (let dateString = localDateString tz date
           in if js_includes (exceptions rec) dateString = Some True then False
              else if r_type rec = Daily then True
              else if r_type rec = Weekly then
                (let dayOfWeek = getDay tz date
                 in case js_includes (days rec) dayOfWeek of None \<Rightarrow> False | Some b \<Rightarrow> b)
              else False))"

definition unavailableBlockFor :: "int \<Rightarrow> UnavailableBlock \<Rightarrow> date \<Rightarrow> TimeBlock" where
  \<comment> \<open>the block pushed by \<open>addUnavailableBlocks\<close> (lines 71-83)\<close>
  "unavailableBlockFor tz block date =
     (let startTime' = u_startTime block;
          endTime' = u_endTime block;
          blockDate = setHours tz date (getHours tz startTime') (getMinutes tz startTime');
          blockEndTime = setHours tz blockDate (getHours tz endTime') (getMinutes tz endTime')
      in \<lparr>b_id = UnavailableId (u_id block) (toDateString tz date),
          b_type = BUnavailable,
          taskId = None,
          task = None,
          startTime = blockDate,
          endTime = blockEndTime,
          title = u_title block,
          description = map_option Plain (u_description block),
          isFixed = Some True\<rparr>)"

definition addUnavailableBlocks :: "int \<Rightarrow> Scheduler \<Rightarrow> TimeBlock list \<Rightarrow> date \<Rightarrow> TimeBlock list" where
  \<comment> \<open>\<open>timetable-scheduler.ts\<close>, lines 63-86\<close>
  "addUnavailableBlocks tz s timetable date =
     fold (\<lambda>block tt.
             if shouldIncludeBlock tz block date
             then tt @ [unavailableBlockFor tz block date] else tt)
          (unavailableBlocks s) timetable"

definition scheduledBlockFor :: "int \<Rightarrow> Task \<Rightarrow> date \<Rightarrow> date \<Rightarrow> TimeBlock" where
  \<comment> \<open>the block pushed by \<open>addExistingScheduledTasks\<close> (lines 133-144)\<close>
  "scheduledBlockFor tz task' date scheduledDate =
     (let endTime' = scheduledDate + duration task' * 60000
      in \<lparr>b_id = ScheduledId (t_id task') (toDateString tz date),
          b_type = BTask,
          taskId = Some (t_id task'),
          task = Some task',
          startTime = scheduledDate,
          endTime = endTime',
          title = t_name task',
          description = Some (TaskSummary (t_type task') (priority task') (duration task')),
          isFixed = None\<rparr>)"

definition addExistingScheduledTasks ::
  "int \<Rightarrow> date \<Rightarrow> Scheduler \<Rightarrow> TimeBlock list \<Rightarrow> date \<Rightarrow> date option \<Rightarrow> TimeBlock list" where
  \<comment> \<open>\<open>timetable-scheduler.ts\<close>, lines 112-147\<close>
  "addExistingScheduledTasks tz clock s timetable date currentTime =
     (let targetDateOnly = setHours tz date 0 0;
          now = nowOf clock currentTime;
          isToday = (toDateString tz date = toDateString tz now)
      in fold (\<lambda>task' tt.
                 if completed task' then tt
                 else case scheduledTime task' of
                   None \<Rightarrow> tt
                 | Some scheduledDate \<Rightarrow>
                     (let scheduledDateOnly = setHours tz scheduledDate 0 0
                      in if scheduledDateOnly = targetDateOnly then
                           (if isToday \<and> scheduledDate \<le> now \<and> \<not> completed task' then tt
                            else tt @ [scheduledBlockFor tz task' date scheduledDate])
                         else tt))
              (tasks s) timetable)"

definition eligible :: "int \<Rightarrow> date \<Rightarrow> date \<Rightarrow> date option \<Rightarrow> Task \<Rightarrow> bool" where
  \<comment> \<open>the predicate that \<open>getTasksForRescheduling\<close> filters with\<close>
  "eligible tz clock targetDate currentTime task' =
     (let now = nowOf clock currentTime;
          isToday = (toDateString tz targetDate = toDateString tz now);
          targetDateOnly = setHours tz targetDate 0 0;
          todayOnly = setHours tz now 0 0
      in if completed task' then False
         else if targetDateOnly < todayOnly then False
         else
           (let deadlineDate = deadline task';
                deadlineDateOnly = setHours tz deadlineDate 0 0;
                isOverdue = (deadlineDateOnly < todayOnly)
            in case scheduledTime task' of
                 Some scheduledDate \<Rightarrow>
                   (let scheduledDateOnly = setHours tz scheduledDate 0 0
                    in if scheduledDateOnly = targetDateOnly then
                         (if isToday \<and> scheduledDate \<le> now \<and> \<not> completed task' then True
                          else if isToday \<and> scheduledDate > now then False
                          else False)
                       else if scheduledDateOnly < todayOnly \<and> \<not> completed task' then True
                       else False)
               | None \<Rightarrow>
                   if isOverdue \<and> targetDateOnly \<ge> todayOnly then True
                   else deadlineDateOnly \<ge> targetDateOnly))"

definition getTasksForRescheduling ::
  "int \<Rightarrow> date \<Rightarrow> Scheduler \<Rightarrow> date \<Rightarrow> date option \<Rightarrow> Task list" where
  \<comment> \<open>\<open>timetable-scheduler.ts\<close>, lines 149-216\<close>
  "getTasksForRescheduling tz clock s targetDate currentTime =
     filter (eligible tz clock targetDate currentTime) (tasks s)"

definition priorityScores :: "Priority \<Rightarrow> int" where
  "priorityScores p = (case p of High \<Rightarrow> 40 | Medium \<Rightarrow> 25 | Low \<Rightarrow> 10)"

definition typeScores :: "TaskType \<Rightarrow> int" where
  "typeScores c = (case c of Work \<Rightarrow> 15 | Study \<Rightarrow> 12 | Leisure \<Rightarrow> 8)"

definition deadlineUrgency :: "date \<Rightarrow> Task \<Rightarrow> int" where
  \<comment> \<open>\<open>hoursToDeadline <= h\<close> is compared in milliseconds\<close>
  "deadlineUrgency now task' =
     (let msToDeadline = deadline task' - now
      in if msToDeadline \<le> 24 * (1000 * 60 * 60) then 80
         else if msToDeadline \<le> 48 * (1000 * 60 * 60) then 60
         else if msToDeadline \<le> 168 * (1000 * 60 * 60) then 40
         else 15)"

definition getScore :: "date \<Rightarrow> Task \<Rightarrow> int" where
  \<comment> \<open>lines 438-462\<close>
  "getScore now task' =
     (let score = 0;
          score = score + deadlineUrgency now task';
          score = score + priorityScores (priority task');
          score = score + typeScores (t_type task');
          score = (if duration task' > 120 then score - 10 else score);
          score = (if duration task' > 180 then score - 15 else score)
      in score)"

definition prioritizeTasks :: "date \<Rightarrow> Task list \<Rightarrow> date \<Rightarrow> date option \<Rightarrow> Task list" where
  \<comment> \<open>\<open>Array.prototype.sort\<close> is stable; the comparator \<open>getScore(b) - getScore(a)\<close>
      orders by descending score\<close>
  "prioritizeTasks clock ts targetDate currentTime =
     (let now = nowOf clock currentTime
      in sort_key (\<lambda>task'. - getScore now task') ts)"

definition slotsOverlap :: "date \<Rightarrow> date \<Rightarrow> date \<Rightarrow> date \<Rightarrow> bool" where
  "slotsOverlap start1 end1 start2 end2 = (start1 < end2 \<and> end1 > start2)"

function buildSlots :: "date \<Rightarrow> date \<Rightarrow> date \<Rightarrow> Slot list" where
  \<comment> \<open>the \<open>while\<close> loop of lines 298-310\<close>
  "buildSlots current latestTaskStart dayEnd' =
     (if current < latestTaskStart then
        (let slotEnd = current + 15 * 60000
         in (if slotEnd \<le> dayEnd'
             then [\<lparr>s_start = current, s_end = slotEnd, available = True\<rparr>] else [])
            @ buildSlots (current + 15 * 60000) latestTaskStart dayEnd')
      else [])"
  by pat_completeness auto
termination
  by (relation "measure (\<lambda>(current, latestTaskStart, dayEnd'). nat (latestTaskStart - current))") auto

declare buildSlots.simps [simp del]

definition markSlots :: "TimeBlock list \<Rightarrow> Slot list \<Rightarrow> Slot list" where
  \<comment> \<open>lines 313-320\<close>
  "markSlots timetable slots =
     fold (\<lambda>block sl.
             map (\<lambda>slot. if slotsOverlap (s_start slot) (s_end slot) (startTime block) (endTime block)
                         then slot\<lparr>available := False\<rparr> else slot) sl)
          timetable slots"

datatype 'a step = Continue | Return 'a | Throw error

definition scanBody ::
  "TimeBlock list \<Rightarrow> Slot list \<Rightarrow> int \<Rightarrow> date \<Rightarrow> int \<Rightarrow> date option \<Rightarrow> int \<Rightarrow> nat
     \<Rightarrow> (date \<times> date) step" where
  \<comment> \<open>the body of the scanning loop at index \<open>i\<close>: it goes on to the next index, returns
      a slot, or throws when it reads the start of \<open>consecutiveSlots[0]\<close> of an empty slice\<close>
  "scanBody timetable slots duration' dayEnd' requiredSlots lastTaskEndTime continuousWorkTime i =
     (let consecutiveSlots = js_slice slots (int i) (int i + requiredSlots)
      in if list_all available consecutiveSlots then
           (case consecutiveSlots of
              [] \<Rightarrow> Throw TypeError
            | first # _ \<Rightarrow>
                (let proposedStart = s_start first;
                     actualEnd = proposedStart + duration' * 60000
                 in if actualEnd > dayEnd' then Continue
                    else if list_ex (\<lambda>block. slotsOverlap proposedStart actualEnd
                                               (startTime block) (endTime block)) timetable
                    then Continue
                    else if (case lastTaskEndTime of
                               None \<Rightarrow> False
                             | Some lastEnd \<Rightarrow>
                                 continuousWorkTime \<noteq> 0 \<and> continuousWorkTime \<ge> maxContinuousWork \<and>
                                 (let timeSinceLastTask = proposedStart - lastEnd;
                                      minBreakTime = (if continuousWorkTime \<ge> 120
                                                      then longBreakDuration else shortBreakDuration)
                                  in timeSinceLastTask < minBreakTime * 60000))
                    then Continue
                    else Return (proposedStart, actualEnd)))
         else Continue)"

fun scanSlots ::
  "TimeBlock list \<Rightarrow> Slot list \<Rightarrow> int \<Rightarrow> date \<Rightarrow> int \<Rightarrow> date option \<Rightarrow> int \<Rightarrow> nat list
     \<Rightarrow> error + (date \<times> date) option" where
  \<comment> \<open>the \<open>for\<close> loop of lines 325-365, over its indices\<close>
  "scanSlots timetable slots duration' dayEnd' requiredSlots lastTaskEndTime continuousWorkTime [] =
     Inr None"
| "scanSlots timetable slots duration' dayEnd' requiredSlots lastTaskEndTime continuousWorkTime (i # rest) =
     (case scanBody timetable slots duration' dayEnd' requiredSlots lastTaskEndTime continuousWorkTime i of
        Continue \<Rightarrow>
          scanSlots timetable slots duration' dayEnd' requiredSlots lastTaskEndTime continuousWorkTime rest
      | Return slot \<Rightarrow> Inr (Some slot)
      | Throw e \<Rightarrow> Inl e)"

definition windowStart :: "int \<Rightarrow> date \<Rightarrow> date \<Rightarrow> date option \<Rightarrow> date" where
  \<comment> \<open>the variable \<open>dayStart\<close> of \<open>findAvailableSlot\<close>, once it is settled\<close>
  "windowStart tz clock date currentTime =
     (let now = nowOf clock currentTime;
          isToday = (toDateString tz date = toDateString tz now);
          dayStart' = setHours tz date dayStart 0
      in if isToday \<and> now > dayStart' then
           (let nextSlot = now + 15 * 60000;
                minutes = getMinutes tz nextSlot;
                roundedMinutes = ceilDiv minutes 15 * 15
            in if roundedMinutes \<ge> 60
               then setHours tz dayStart' (getHours tz nextSlot + 1) 0
               else setHours tz dayStart' (getHours tz nextSlot) roundedMinutes)
         else dayStart')"

definition findAvailableSlot ::
  "int \<Rightarrow> date \<Rightarrow> TimeBlock list \<Rightarrow> int \<Rightarrow> date \<Rightarrow> date option \<Rightarrow> date option \<Rightarrow> int
     \<Rightarrow> error + (date \<times> date) option" where
  \<comment> \<open>\<open>timetable-scheduler.ts\<close>, lines 252-368\<close>
  "findAvailableSlot tz clock timetable duration' date currentTime lastTaskEndTime continuousWorkTime =
     (let today = setHours tz clock 0 0;
          targetDate = setHours tz date 0 0
      in if targetDate < today then Inr None
         else
           (let dayStart' = windowStart tz clock date currentTime;
                dayEnd' = setHours tz date dayEnd 0;
                latestTaskStart = dayEnd' - duration' * 60000;
                slots = buildSlots dayStart' latestTaskStart dayEnd';
                slots = markSlots timetable slots;
                requiredSlots = ceilDiv duration' 15
            in scanSlots timetable slots duration' dayEnd' requiredSlots lastTaskEndTime continuousWorkTime
                 [0 ..< nat (int (length slots) - requiredSlots + 1)]))"

definition taskBlockFor :: "int \<Rightarrow> Task \<Rightarrow> date \<Rightarrow> date \<Rightarrow> date \<Rightarrow> TimeBlock" where
  \<comment> \<open>the block pushed by \<open>placeTasks\<close> (lines 225-234)\<close>
  "taskBlockFor tz task' date slotStart slotEnd =
     \<lparr>b_id = TaskId (t_id task') (toDateString tz date),
      b_type = BTask,
      taskId = Some (t_id task'),
      task = Some (task'\<lparr>scheduledTime := Some slotStart\<rparr>),
      startTime = slotStart,
      endTime = slotEnd,
      title = t_name task',
      description = Some (TaskSummary (t_type task') (priority task') (duration task')),
      isFixed = None\<rparr>"

fun placeLoop ::
  "int \<Rightarrow> date \<Rightarrow> date \<Rightarrow> date option \<Rightarrow> Task list
     \<Rightarrow> TimeBlock list \<Rightarrow> Task list \<Rightarrow> date option \<Rightarrow> int
     \<Rightarrow> error + (TimeBlock list \<times> Task list)" where
  \<comment> \<open>the \<open>for\<close> loop of \<open>placeTasks\<close>, with the timetable, \<open>this.tasks\<close>, \<open>lastTaskEndTime\<close>
      and \<open>continuousWorkTime\<close> as they stand\<close>
  "placeLoop tz clock date currentTime [] timetable thisTasks lastTaskEndTime continuousWorkTime =
     Inr (timetable, thisTasks)"
| "placeLoop tz clock date currentTime (task' # rest) timetable thisTasks lastTaskEndTime continuousWorkTime =
     (case findAvailableSlot tz clock timetable (duration task') date currentTime lastTaskEndTime continuousWorkTime of
        Inl e \<Rightarrow> Inl e
      | Inr None \<Rightarrow>
          placeLoop tz clock date currentTime rest timetable thisTasks lastTaskEndTime continuousWorkTime
      | Inr (Some (slotStart, slotEnd)) \<Rightarrow>
          (let timetable = timetable @ [taskBlockFor tz task' date slotStart slotEnd];
               lastTaskEndTime = Some slotEnd;
               continuousWorkTime = continuousWorkTime + duration task';
               thisTasks = map (\<lambda>t. if t_id t = t_id task' then t\<lparr>scheduledTime := Some slotStart\<rparr> else t) thisTasks;
               continuousWorkTime = (if continuousWorkTime > maxContinuousWork then 0 else continuousWorkTime)
           in placeLoop tz clock date currentTime rest timetable thisTasks lastTaskEndTime continuousWorkTime))"

definition placeTasks ::
  "int \<Rightarrow> date \<Rightarrow> Scheduler \<Rightarrow> TimeBlock list \<Rightarrow> Task list \<Rightarrow> date \<Rightarrow> date option
     \<Rightarrow> error + (TimeBlock list \<times> Scheduler)" where
  \<comment> \<open>\<open>timetable-scheduler.ts\<close>, lines 218-250\<close>
  "placeTasks tz clock s timetable ts date currentTime =
     (case placeLoop tz clock date currentTime ts timetable (tasks s) None 0 of
        Inl e \<Rightarrow> Inl e
      | Inr (timetable', thisTasks) \<Rightarrow> Inr (timetable', s\<lparr>tasks := thisTasks\<rparr>))"

definition taskDurationOr0 :: "TimeBlock \<Rightarrow> int" where
  \<comment> \<open>\<open>block.task?.duration || 0\<close>\<close>
  "taskDurationOr0 block = (case task block of None \<Rightarrow> 0 | Some t \<Rightarrow> duration t)"

definition intensive :: "TimeBlock \<Rightarrow> bool" where
  "intensive block =
     ((case task block of None \<Rightarrow> False | Some t \<Rightarrow> priority t = High) \<or> taskDurationOr0 block \<ge> 90)"

definition breakBetween :: "int \<Rightarrow> TimeBlock \<Rightarrow> TimeBlock \<Rightarrow> TimeBlock option \<times> int" where
  \<comment> \<open>the body of the loop of \<open>insertIntelligentBreaks\<close> for one pair of neighbours: the
      break it adds, if any, and the continuous work time it leaves; the gaps in minutes
      are compared in milliseconds\<close>
  "breakBetween continuousWorkTime currentTask nextTask =
     (let taskDuration = taskDurationOr0 currentTask;
          continuousWorkTime = continuousWorkTime + taskDuration;
          timeBetween = startTime nextTask - endTime currentTask;
          needsShortBreak = (taskDuration \<ge> 45 \<and> timeBetween \<ge> shortBreakDuration * (1000 * 60));
          needsLongBreak = (continuousWorkTime \<ge> maxContinuousWork
                             \<and> timeBetween \<ge> longBreakDuration * (1000 * 60));
          currentIntensive = intensive currentTask;
          nextIntensive = intensive nextTask;
          needsRestBreak = (currentIntensive \<and> nextIntensive
                             \<and> timeBetween \<ge> shortBreakDuration * (1000 * 60));
          breakDuration = (if needsLongBreak then longBreakDuration else shortBreakDuration);
          breakEnd = endTime currentTask + breakDuration * 60000;
          inserted = ((needsLongBreak \<or> needsRestBreak \<or> needsShortBreak)
                       \<and> timeBetween \<ge> shortBreakDuration * (1000 * 60)
                       \<and> breakEnd \<le> startTime nextTask);
          breakType = (if needsLongBreak then ''Extended Break''
                       else if needsRestBreak then ''Rest Break'' else ''Short Break'');
          breakDescr = (if needsLongBreak then ''Extended rest for wellbeing''
                        else if needsRestBreak then ''Recovery from intensive work''
                        else ''Quick refresh'');
          continuousWorkTime = (if inserted \<and> needsLongBreak then 0 else continuousWorkTime);
          continuousWorkTime = (if timeBetween \<ge> 60 * (1000 * 60) then 0 else continuousWorkTime)
      in (if inserted
          then Some \<lparr>b_id = BreakId (b_id currentTask) (b_id nextTask),
                     b_type = BBreak,
                     taskId = None,
                     task = None,
                     startTime = endTime currentTask,
                     endTime = breakEnd,
                     title = breakType,
                     description = Some (Plain breakDescr),
                     isFixed = None\<rparr>
          else None,
          continuousWorkTime))"

fun breaksLoop :: "int \<Rightarrow> TimeBlock list \<Rightarrow> TimeBlock list" where
  \<comment> \<open>the \<open>for\<close> loop of lines 381-428 over neighbouring task blocks; the result is
      \<open>breaksToAdd\<close>\<close>
  "breaksLoop continuousWorkTime (currentTask # nextTask # rest) =
     (case breakBetween continuousWorkTime currentTask nextTask of
        (None, continuousWorkTime') \<Rightarrow> breaksLoop continuousWorkTime' (nextTask # rest)
      | (Some newBreak, continuousWorkTime') \<Rightarrow>
          newBreak # breaksLoop continuousWorkTime' (nextTask # rest))"
| "breaksLoop continuousWorkTime _ = []"

definition insertIntelligentBreaks :: "TimeBlock list \<Rightarrow> TimeBlock list" where
  \<comment> \<open>\<open>timetable-scheduler.ts\<close>, lines 374-431\<close>
  "insertIntelligentBreaks timetable =
     (let taskBlocks = sort_key startTime (filter (\<lambda>block. b_type block = BTask) timetable);
          breaksToAdd = breaksLoop 0 taskBlocks
      in timetable @ breaksToAdd)"

definition notCompleted :: "TimeBlock \<Rightarrow> bool" where
  \<comment> \<open>the final filter of \<open>generateTimetable\<close>\<close>
  "notCompleted block =
     (case task block of
        Some t \<Rightarrow> if b_type block = BTask then \<not> completed t else True
      | None \<Rightarrow> True)"

definition generateTimetable ::
  "int \<Rightarrow> date \<Rightarrow> Scheduler \<Rightarrow> date \<Rightarrow> error + (TimeBlock list \<times> Scheduler)" where
  \<comment> \<open>\<open>timetable-scheduler.ts\<close>, lines 20-61\<close>
  "generateTimetable tz clock s date =
     (let timetable = [];
          targetDate = setHours tz date 0 0;
          now = clock;
          isToday = (toDateString tz targetDate = toDateString tz now);
          today = setHours tz clock 0 0
      in if targetDate < today then Inr ([], s)
         else
           (let timetable = addUnavailableBlocks tz s timetable targetDate;
                currentTime = (if isToday then Some now else None);
                timetable = addExistingScheduledTasks tz clock s timetable targetDate currentTime;
                eligibleTasks = getTasksForRescheduling tz clock s targetDate currentTime;
                sortedTasks = prioritizeTasks clock eligibleTasks targetDate currentTime
            in case placeTasks tz clock s timetable sortedTasks targetDate currentTime of
                 Inl e \<Rightarrow> Inl e
               | Inr (timetable, s') \<Rightarrow>
                   (let timetable = insertIntelligentBreaks timetable
                    in Inr (sort_key startTime (filter notCompleted timetable), s'))))"

definition conflictExists :: "TimeBlock list \<Rightarrow> nat \<Rightarrow> date \<Rightarrow> date \<Rightarrow> bool" where
  \<comment> \<open>lines 482-485\<close>
  "conflictExists currentTimetable taskIndex newStartTime newEndTime =
     list_ex (\<lambda>(block, index). index \<noteq> taskIndex \<and>
                slotsOverlap newStartTime newEndTime (startTime block) (endTime block))
             (zip currentTimetable [0 ..< length currentTimetable])"

definition rescheduleTask ::
  "int \<Rightarrow> date \<Rightarrow> Scheduler \<Rightarrow> string \<Rightarrow> date \<Rightarrow> TimeBlock list option
     \<Rightarrow> error + (TimeBlock list \<times> Scheduler)" where
  \<comment> \<open>\<open>timetable-scheduler.ts\<close>, lines 468-505\<close>
  "rescheduleTask tz clock s taskId' newStartTime timetable =
     (case (case timetable of Some tt \<Rightarrow> Inr (tt, s)
                            | None \<Rightarrow> generateTimetable tz clock s newStartTime) of
        Inl e \<Rightarrow> Inl e
      | Inr (currentTimetable, s) \<Rightarrow>
          (case findIndex (\<lambda>block. taskId block = Some taskId') currentTimetable of
             None \<Rightarrow> Inr (currentTimetable, s)
           | Some taskIndex \<Rightarrow>
               (let taskBlock = currentTimetable ! taskIndex
                in case task taskBlock of
                     None \<Rightarrow> Inr (currentTimetable, s)
                   | Some t \<Rightarrow>
                       (let duration' = duration t * 60000;
                            newEndTime = newStartTime + duration'
                        in if \<not> conflictExists currentTimetable taskIndex newStartTime newEndTime then
                             (let updatedTimetable = currentTimetable
                                    [taskIndex := taskBlock\<lparr>startTime := newStartTime,
                                                           endTime := newEndTime,
                                                           task := Some (t\<lparr>scheduledTime := Some newStartTime\<rparr>)\<rparr>]
                              in Inr (updatedTimetable,
                                      s\<lparr>tasks := map (\<lambda>task'. if t_id task' = taskId'
                                                               then task'\<lparr>scheduledTime := Some newStartTime\<rparr>
                                                               else task') (tasks s)\<rparr>))
                           else Inr (currentTimetable, s)))))"

fun updateFirst :: "('a \<Rightarrow> bool) \<Rightarrow> ('a \<Rightarrow> 'a) \<Rightarrow> 'a list \<Rightarrow> 'a list" where
  \<comment> \<open>the first element that satisfies \<open>P\<close>, replaced by its image\<close>
  "updateFirst P f [] = []"
| "updateFirst P f (x # xs) = (if P x then f x # xs else x # updateFirst P f xs)"

definition addException :: "UnavailableBlock \<Rightarrow> date \<Rightarrow> UnavailableBlock" where
  \<comment> \<open>what \<open>addExceptionToRecurringBlock\<close> does to the block it found\<close>
  "addException block exceptionDate =
     (case recurring block of
        None \<Rightarrow> block
      | Some rec \<Rightarrow>
          (let dateString = isoDateString exceptionDate;
               exs = (case exceptions rec of None \<Rightarrow> [] | Some l \<Rightarrow> l);
               exs = (if dateString \<notin> set exs then exs @ [dateString] else exs)
           in block\<lparr>recurring := Some (rec\<lparr>exceptions := Some exs\<rparr>)\<rparr>))"

definition addExceptionToRecurringBlock ::
  "Scheduler \<Rightarrow> string \<Rightarrow> date \<Rightarrow> bool \<times> Scheduler" where
  \<comment> \<open>the block found is updated in place, in the scheduler's array\<close>
  "addExceptionToRecurringBlock s blockId exceptionDate =
     (case find (\<lambda>b. u_id b = blockId) (unavailableBlocks s) of
        None \<Rightarrow> (False, s)
      | Some block \<Rightarrow>
          if recurring block = None then (False, s)
          else (True, s\<lparr>unavailableBlocks :=
                          updateFirst (\<lambda>b. u_id b = blockId) (\<lambda>b. addException b exceptionDate)
                            (unavailableBlocks s)\<rparr>))"

definition generateTimetableForDate ::
  "int \<Rightarrow> date \<Rightarrow> Scheduler \<Rightarrow> date \<Rightarrow> Task list \<Rightarrow> UnavailableBlock list
     \<Rightarrow> error + (TimeBlock list \<times> Scheduler)" where
  \<comment> \<open>\<open>useScheduler\<close>: the engine's entry point with the tasks and blocks as arguments\<close>
  "generateTimetableForDate tz clock s date ts blocks =
     generateTimetable tz clock (setUnavailableBlocks (setTasks s ts) blocks) date"

section \<open>Definitions used to state the properties\<close>

definition outputOf :: "error + ('a \<times> Scheduler) \<Rightarrow> error + 'a" where
  \<comment> \<open>what a call returns to its caller, without the scheduler object\<close>
  "outputOf r = map_sum id fst r"

definition lengthPenalty_spec :: "int \<Rightarrow> int" where
  \<comment> \<open>the specification's words: duration over 180 gives 15, else over 120 gives 10, else 0\<close>
  "lengthPenalty_spec d = (if d > 180 then 15 else if d > 120 then 10 else 0)"

definition lengthPenalty :: "int \<Rightarrow> int" where
  \<comment> \<open>the two reductions of \<open>getScore\<close>, which accumulate\<close>
  "lengthPenalty d = (if d > 180 then 25 else if d > 120 then 10 else 0)"

definition taskBlockOk :: "TimeBlock \<Rightarrow> bool" where
  \<comment> \<open>a task block spans its task's duration and its snapshot is scheduled at its start\<close>
  "taskBlockOk block =
     (b_type block = BTask \<longrightarrow>
        (case task block of
           None \<Rightarrow> False
         | Some t \<Rightarrow> endTime block = startTime block + duration t * 60000 \<and>
                     scheduledTime t = Some (startTime block)))"

definition keptScheduled :: "int \<Rightarrow> date \<Rightarrow> date \<Rightarrow> date option \<Rightarrow> Task \<Rightarrow> bool" where
  \<comment> \<open>the tasks for which \<open>addExistingScheduledTasks\<close> adds a block\<close>
  "keptScheduled tz clock date currentTime task' =
     (\<not> completed task' \<and>
      (case scheduledTime task' of
         None \<Rightarrow> False
       | Some scheduledDate \<Rightarrow>
           setHours tz scheduledDate 0 0 = setHours tz date 0 0 \<and>
           \<not> (toDateString tz date = toDateString tz (nowOf clock currentTime) \<and>
              scheduledDate \<le> nowOf clock currentTime)))"

definition currentTimeFor :: "int \<Rightarrow> date \<Rightarrow> date \<Rightarrow> date option" where
  \<comment> \<open>\<open>isToday ? now : null\<close>, as \<open>generateTimetable\<close> passes it on\<close>
  "currentTimeFor tz clock date =
     (if toDateString tz (setHours tz date 0 0) = toDateString tz clock then Some clock else None)"

definition fixedBlocks :: "int \<Rightarrow> date \<Rightarrow> Scheduler \<Rightarrow> date \<Rightarrow> TimeBlock list" where
  \<comment> \<open>the timetable of \<open>generateTimetable\<close> when it calls \<open>placeTasks\<close>\<close>
  "fixedBlocks tz clock s date =
     addExistingScheduledTasks tz clock s
       (addUnavailableBlocks tz s [] (setHours tz date 0 0))
       (setHours tz date 0 0) (currentTimeFor tz clock date)"

definition tasksToPlace :: "int \<Rightarrow> date \<Rightarrow> Scheduler \<Rightarrow> date \<Rightarrow> Task list" where
  \<comment> \<open>the sorted eligible tasks that \<open>generateTimetable\<close> gives to \<open>placeTasks\<close>\<close>
  "tasksToPlace tz clock s date =
     prioritizeTasks clock
       (getTasksForRescheduling tz clock s (setHours tz date 0 0) (currentTimeFor tz clock date))
       (setHours tz date 0 0) (currentTimeFor tz clock date)"

definition overlaps :: "TimeBlock \<Rightarrow> TimeBlock \<Rightarrow> bool" where
  \<comment> \<open>the overlap test, on two blocks\<close>
  "overlaps a b = slotsOverlap (startTime a) (endTime a) (startTime b) (endTime b)"

definition noOverlap :: "TimeBlock list \<Rightarrow> bool" where
  \<comment> \<open>no two blocks at distinct positions overlap (the test is symmetric)\<close>
  "noOverlap timetable = sorted_wrt (\<lambda>a b. \<not> overlaps a b) timetable"

definition apart :: "TimeBlock \<Rightarrow> TimeBlock \<Rightarrow> bool" where
  \<comment> \<open>the two blocks do not overlap, unless one is a break and the other an unavailable block\<close>
  "apart a b =
     (overlaps a b \<longrightarrow>
        (b_type a = BBreak \<and> b_type b = BUnavailable) \<or>
        (b_type a = BUnavailable \<and> b_type b = BBreak))"

definition properBlock :: "TimeBlock \<Rightarrow> bool" where
  \<comment> \<open>not a break, and of positive length when it is a task block\<close>
  "properBlock block =
     (b_type block \<noteq> BBreak \<and> (b_type block = BTask \<longrightarrow> startTime block < endTime block))"

definition chain :: "TimeBlock list \<Rightarrow> bool" where
  \<comment> \<open>blocks of positive length, each ending before the later ones start\<close>
  "chain xs =
     (sorted_wrt (\<lambda>a b. endTime a \<le> startTime b) xs \<and> (\<forall>x \<in> set xs. startTime x < endTime x))"

subsection \<open>Example inputs\<close>

definition at :: "int \<Rightarrow> int \<Rightarrow> int \<Rightarrow> date" where
  \<comment> \<open>the instant \<open>h:m\<close> UTC of day number \<open>day\<close>\<close>
  "at day h m = day * 86400000 + h * 3600000 + m * 60000"

definition exTask :: "string \<Rightarrow> int \<Rightarrow> date \<Rightarrow> date option \<Rightarrow> Task" where
  "exTask i d dl st =
     \<lparr>t_id = i, t_name = i, duration = d, deadline = dl, priority = Medium,
      t_type = Work, completed = False, scheduledTime = st, createdAt = 0\<rparr>"

definition exTwoTasks :: Scheduler where
  "exTwoTasks =
     \<lparr>tasks = [exTask ''a'' 30 (at 99 12 0) None, exTask ''b'' 15 (at 99 12 0) None],
      unavailableBlocks = []\<rparr>"

definition exOneTask :: Scheduler where
  "exOneTask = \<lparr>tasks = [exTask ''a'' 60 (at 101 12 0) None], unavailableBlocks = []\<rparr>"

definition exBare :: TimeBlock where
  \<comment> \<open>a block that names a task and carries no snapshot of it\<close>
  "exBare =
     \<lparr>b_id = TaskId ''c'' 100, b_type = BTask, taskId = Some ''c'', task = None,
      startTime = at 100 22 0, endTime = at 100 22 30, title = ''c'', description = None,
      isFixed = None\<rparr>"

definition exTimetable :: "TimeBlock list" where
  "exTimetable =
     [taskBlockFor 0 (exTask ''a'' 30 (at 99 12 0) None) (at 100 0 0) (at 100 21 15) (at 100 21 45),
      taskBlockFor 0 (exTask ''b'' 15 (at 99 12 0) None) (at 100 0 0) (at 100 21 45) (at 100 22 0),
      exBare]"

definition exDaily :: UnavailableBlock where
  "exDaily = \<lparr>u_id = ''u'', u_startTime = at 50 9 0, u_endTime = at 50 10 0, u_title = ''standup'',
              u_description = None,
              recurring = Some \<lparr>r_type = Daily, days = None, exceptions = None\<rparr>\<rparr>"

definition exLunch :: UnavailableBlock where
  "exLunch = \<lparr>u_id = ''v'', u_startTime = at 50 12 0, u_endTime = at 50 13 0, u_title = ''lunch'',
              u_description = None,
              recurring = Some \<lparr>r_type = Daily, days = None, exceptions = None\<rparr>\<rparr>"

definition exDailyScheduler :: Scheduler where
  "exDailyScheduler = \<lparr>tasks = [], unavailableBlocks = [exDaily, exLunch]\<rparr>"

definition exOneOff :: "string \<Rightarrow> date \<Rightarrow> date \<Rightarrow> UnavailableBlock" where
  "exOneOff i st en = \<lparr>u_id = i, u_startTime = st, u_endTime = en, u_title = i,
                        u_description = None, recurring = None\<rparr>"

definition exOverlapping :: Scheduler where
  "exOverlapping =
     \<lparr>tasks = [],
      unavailableBlocks = [exOneOff ''x'' (at 100 9 0) (at 100 11 0),
                           exOneOff ''y'' (at 100 10 0) (at 100 12 0)]\<rparr>"

definition exBreaks :: Scheduler where
  "exBreaks =
     \<lparr>tasks = [exTask ''a'' 60 (at 102 12 0) (Some (at 101 9 0)),
               exTask ''b'' 60 (at 102 12 0) (Some (at 101 11 0))],
      unavailableBlocks = [exOneOff ''x'' (at 101 10 0) (at 101 10 30)]\<rparr>"

definition exBreaksOutput :: "TimeBlock list" where
  "exBreaksOutput =
     [scheduledBlockFor 0 (exTask ''a'' 60 (at 102 12 0) (Some (at 101 9 0))) (at 101 0 0) (at 101 9 0),
      unavailableBlockFor 0 (exOneOff ''x'' (at 101 10 0) (at 101 10 30)) (at 101 0 0),
      \<lparr>b_id = BreakId (ScheduledId ''a'' 101) (ScheduledId ''b'' 101), b_type = BBreak,
       taskId = None, task = None, startTime = at 101 10 0, endTime = at 101 10 15,
       title = ''Short Break'', description = Some (Plain ''Quick refresh''), isFixed = None\<rparr>,
      scheduledBlockFor 0 (exTask ''b'' 60 (at 102 12 0) (Some (at 101 11 0))) (at 101 0 0) (at 101 11 0)]"

section \<open>Auxiliary lemmas\<close>

subsection \<open>A slot that the allocator returns\<close>

lemma set_js_slice: "set (js_slice xs a b) \<subseteq> set xs"
  unfolding js_slice_def Let_def
  by (meson set_take_subset set_drop_subset subset_trans)

lemma scanBody_Return:
  "scanBody tt slots d dayEnd' req lst cwt i = Return (a, b) \<Longrightarrow>
     b = a + d * 60000 \<and> b \<le> dayEnd' \<and>
     (\<forall>block \<in> set tt. \<not> slotsOverlap a b (startTime block) (endTime block)) \<and>
     (\<exists>slot \<in> set slots. s_start slot = a)"
proof -
  assume r: "scanBody tt slots d dayEnd' req lst cwt i = Return (a, b)"
  let ?cs = "js_slice slots (int i) (int i + req)"
  from r obtain first more where cs: "?cs = first # more"
    by (cases ?cs) (auto simp: scanBody_def Let_def split: if_splits)
  from r cs have a: "a = s_start first" and b: "b = s_start first + d * 60000"
      and le: "\<not> s_start first + d * 60000 > dayEnd'"
      and nc: "\<not> list_ex (\<lambda>block. slotsOverlap (s_start first) (s_start first + d * 60000) (startTime block) (endTime block)) tt"
    by (simp_all add: scanBody_def Let_def split: if_splits)
  have "first \<in> set slots"
    using cs set_js_slice [of slots "int i" "int i + req"] by auto
  then show ?thesis
    using a b le nc by (auto simp: list_ex_iff)
qed

lemma scanSlots_Some:
  "scanSlots tt slots d dayEnd' req lst cwt idxs = Inr (Some (a, b)) \<Longrightarrow>
     b = a + d * 60000 \<and> b \<le> dayEnd' \<and>
     (\<forall>block \<in> set tt. \<not> slotsOverlap a b (startTime block) (endTime block)) \<and>
     (\<exists>slot \<in> set slots. s_start slot = a)"
proof (induction idxs)
  case Nil
  then show ?case by simp
next
  case (Cons i rest)
  show ?case
  proof (cases "scanBody tt slots d dayEnd' req lst cwt i")
    case Continue
    with Cons.prems have "scanSlots tt slots d dayEnd' req lst cwt rest = Inr (Some (a, b))"
      by simp
    then show ?thesis by (rule Cons.IH)
  next
    case (Return r)
    with Cons.prems have "scanBody tt slots d dayEnd' req lst cwt i = Return (a, b)" by simp
    then show ?thesis by (rule scanBody_Return)
  next
    case (Throw e)
    with Cons.prems show ?thesis by simp
  qed
qed

lemma findAvailableSlot_Some:
  "findAvailableSlot tz clock tt d date cur lst cwt = Inr (Some (a, b)) \<Longrightarrow>
     b = a + d * 60000 \<and> b \<le> setHours tz date dayEnd 0 \<and>
     (\<forall>block \<in> set tt. \<not> slotsOverlap a b (startTime block) (endTime block))"
  unfolding findAvailableSlot_def Let_def
  by (auto split: if_splits dest!: scanSlots_Some)

lemma placeLoop_invariant:
  assumes "placeLoop tz clock date cur ts tt thisTasks lst cwt = Inr (tt', thisTasks')"
    and "I tt"
    and "\<And>tt task' a b lst cwt. I tt \<Longrightarrow> task' \<in> set ts \<Longrightarrow>
           findAvailableSlot tz clock tt (duration task') date cur lst cwt = Inr (Some (a, b)) \<Longrightarrow>
           I (tt @ [taskBlockFor tz task' date a b])"
  shows "I tt'"
  using assms
proof (induction ts arbitrary: tt thisTasks lst cwt)
  case Nil
  then show ?case by simp
next
  case (Cons t ts)
  show ?case
  proof (cases "findAvailableSlot tz clock tt (duration t) date cur lst cwt")
    case (Inl e)
    with Cons.prems(1) show ?thesis by simp
  next
    case (Inr r)
    show ?thesis
    proof (cases r)
      case None
      with Inr Cons.prems(1)
      have "placeLoop tz clock date cur ts tt thisTasks lst cwt = Inr (tt', thisTasks')"
        by simp
      then show ?thesis
        using Cons.IH [of tt thisTasks lst cwt] Cons.prems(2,3) by simp
    next
      case (Some ab)
      obtain a b where ab: "ab = (a, b)" by (cases ab)
      have I': "I (tt @ [taskBlockFor tz t date a b])"
        using Cons.prems(3) [of tt t lst cwt a b] Cons.prems(2) Inr Some ab by simp
      from Cons.prems(1) Inr Some ab obtain tk' l' c' where
        "placeLoop tz clock date cur ts (tt @ [taskBlockFor tz t date a b]) tk' l' c' = Inr (tt', thisTasks')"
        by (simp add: Let_def)
      then show ?thesis
        using Cons.IH [of "tt @ [taskBlockFor tz t date a b]" tk' l' c'] I' Cons.prems(3) by simp
    qed
  qed
qed

subsection \<open>Fixed blocks and breaks\<close>

lemma fold_append_if:
  "fold (\<lambda>x acc. if P x then acc @ [g x] else acc) xs acc = acc @ map g (filter P xs)"
  by (induction xs arbitrary: acc) auto

lemma addUnavailableBlocks_eq:
  "addUnavailableBlocks tz s tt date =
     tt @ map (\<lambda>block. unavailableBlockFor tz block date)
            (filter (\<lambda>block. shouldIncludeBlock tz block date) (unavailableBlocks s))"
  unfolding addUnavailableBlocks_def by (rule fold_append_if)

lemma addExistingScheduledTasks_eq:
  "addExistingScheduledTasks tz clock s tt date cur =
     tt @ map (\<lambda>task'. scheduledBlockFor tz task' date (the (scheduledTime task')))
            (filter (keptScheduled tz clock date cur) (tasks s))"
proof -
  have step: "(if completed task' then acc
               else case scheduledTime task' of
                   None \<Rightarrow> acc
                 | Some scheduledDate \<Rightarrow>
                     (if setHours tz scheduledDate 0 0 = setHours tz date 0 0 then
                        (if toDateString tz date = toDateString tz (nowOf clock cur) \<and>
                            scheduledDate \<le> nowOf clock cur \<and> \<not> completed task' then acc
                         else acc @ [scheduledBlockFor tz task' date scheduledDate])
                      else acc))
              = (if keptScheduled tz clock date cur task'
                 then acc @ [scheduledBlockFor tz task' date (the (scheduledTime task'))] else acc)"
    for task' acc
    by (cases "scheduledTime task'") (simp_all add: keptScheduled_def)
  show ?thesis
    unfolding addExistingScheduledTasks_def Let_def step by (rule fold_append_if)
qed

lemma taskBlockOk_unavailable: "taskBlockOk (unavailableBlockFor tz block date)"
  by (simp add: taskBlockOk_def unavailableBlockFor_def Let_def)

lemma taskBlockOk_scheduled:
  "scheduledTime t = Some sd \<Longrightarrow> taskBlockOk (scheduledBlockFor tz t date sd)"
  by (simp add: taskBlockOk_def scheduledBlockFor_def Let_def)

lemma taskBlockOk_placed:
  "b = a + duration t * 60000 \<Longrightarrow> taskBlockOk (taskBlockFor tz t date a b)"
  by (simp add: taskBlockOk_def taskBlockFor_def)

lemma breakBetween_Some:
  "breakBetween c cur nxt = (Some brk, c') \<Longrightarrow>
     b_type brk = BBreak \<and> task brk = None \<and> startTime brk = endTime cur \<and>
     startTime brk < endTime brk \<and> endTime brk \<le> startTime nxt"
  by (auto simp: breakBetween_def Let_def shortBreakDuration_def longBreakDuration_def
           split: if_splits)

lemma breaksLoop_type: "block \<in> set (breaksLoop c xs) \<Longrightarrow> b_type block = BBreak"
proof (induction c xs rule: breaksLoop.induct)
  case (1 c cur nxt rest)
  obtain r c' where bb: "breakBetween c cur nxt = (r, c')"
    by (cases "breakBetween c cur nxt")
  show ?case
  proof (cases r)
    case None
    with 1 bb show ?thesis by auto
  next
    case (Some brk)
    with 1 bb breakBetween_Some [of c cur nxt brk c'] show ?thesis by auto
  qed
qed simp_all

lemma set_insertIntelligentBreaks:
  "block \<in> set (insertIntelligentBreaks tt) \<Longrightarrow> block \<in> set tt \<or> b_type block = BBreak"
  by (auto simp: insertIntelligentBreaks_def Let_def dest: breaksLoop_type)

subsection \<open>The phases of \<open>generateTimetable\<close>\<close>

lemma generateTimetable_eq:
  "generateTimetable tz clock s date =
     (if localDay tz date < localDay tz clock then Inr ([], s)
      else case placeLoop tz clock (setHours tz date 0 0) (currentTimeFor tz clock date)
                  (tasksToPlace tz clock s date) (fixedBlocks tz clock s date) (tasks s) None 0 of
             Inl e \<Rightarrow> Inl e
           | Inr (tt, thisTasks) \<Rightarrow>
               Inr (sort_key startTime (filter notCompleted (insertIntelligentBreaks tt)),
                    s\<lparr>tasks := thisTasks\<rparr>))"
proof -
  have lt: "setHours tz date 0 0 < setHours tz clock 0 0 \<longleftrightarrow> localDay tz date < localDay tz clock"
    by (simp add: setHours_def)
  show ?thesis
    unfolding generateTimetable_def Let_def lt placeTasks_def
      fixedBlocks_def tasksToPlace_def currentTimeFor_def
    by (simp split: sum.splits prod.splits)
qed

lemma generateTimetable_InrE:
  assumes "generateTimetable tz clock s date = Inr (timetable, s')"
  obtains (past) "localDay tz date < localDay tz clock" "timetable = []" "s' = s"
  | (placed) tt thisTasks where
      "\<not> localDay tz date < localDay tz clock"
      "placeLoop tz clock (setHours tz date 0 0) (currentTimeFor tz clock date)
         (tasksToPlace tz clock s date) (fixedBlocks tz clock s date) (tasks s) None 0
       = Inr (tt, thisTasks)"
      "timetable = sort_key startTime (filter notCompleted (insertIntelligentBreaks tt))"
      "s' = s\<lparr>tasks := thisTasks\<rparr>"
  using assms unfolding generateTimetable_eq
  by (auto split: if_splits sum.splits prod.splits)

lemma fixedBlocks_taskBlockOk: "block \<in> set (fixedBlocks tz clock s date) \<Longrightarrow> taskBlockOk block"
  unfolding fixedBlocks_def addExistingScheduledTasks_eq addUnavailableBlocks_eq
  by (auto simp: keptScheduled_def taskBlockOk_unavailable split: option.splits
           intro!: taskBlockOk_scheduled)

lemma placeLoop_taskBlockOk:
  assumes "placeLoop tz clock date cur ts tt thisTasks lst cwt = Inr (tt', thisTasks')"
    and "\<forall>block \<in> set tt. taskBlockOk block"
  shows "\<forall>block \<in> set tt'. taskBlockOk block"
proof (rule placeLoop_invariant [where I = "\<lambda>tt. \<forall>block \<in> set tt. taskBlockOk block", OF assms])
  fix tt and task' :: Task and a b lst cwt
  assume "\<forall>block \<in> set tt. taskBlockOk block"
    and "findAvailableSlot tz clock tt (duration task') date cur lst cwt = Inr (Some (a, b))"
  then show "\<forall>block \<in> set (tt @ [taskBlockFor tz task' date a b]). taskBlockOk block"
    using findAvailableSlot_Some [of tz clock tt "duration task'" date cur lst cwt a b]
    by (auto intro: taskBlockOk_placed)
qed

lemma breaks_taskBlockOk: "b_type block = BBreak \<Longrightarrow> taskBlockOk block"
  by (simp add: taskBlockOk_def)

subsection \<open>Searching a timetable\<close>

lemma conflictExists_iff:
  "conflictExists tt i ns ne \<longleftrightarrow>
     (\<exists>j < length tt. j \<noteq> i \<and> slotsOverlap ns ne (startTime (tt ! j)) (endTime (tt ! j)))"
proof -
  have "set (zip tt [0 ..< length tt]) = (\<lambda>j. (tt ! j, j)) ` {..< length tt}"
    by (rule set_eqI) (auto simp: set_zip image_iff)
  then show ?thesis
    unfolding conflictExists_def list_ex_iff by auto
qed

lemma findIndex_None: "findIndex P xs = None \<longleftrightarrow> (\<forall>x \<in> set xs. \<not> P x)"
  by (induction xs) auto

lemma findIndex_Some:
  "findIndex P xs = Some i \<longleftrightarrow> i < length xs \<and> P (xs ! i) \<and> (\<forall>j < i. \<not> P (xs ! j))"
proof (induction xs arbitrary: i)
  case Nil
  then show ?case by simp
next
  case (Cons x xs)
  show ?case
  proof (cases "P x")
    case True
    then show ?thesis by (cases i) auto
  next
    case False
    show ?thesis
    proof (cases i)
      case 0
      with False show ?thesis by simp
    next
      case (Suc k)
      have "(\<forall>j < Suc k. \<not> P ((x # xs) ! j)) \<longleftrightarrow> (\<forall>j < k. \<not> P (xs ! j))"
        using False by (auto simp: less_Suc_eq_0_disj)
      with False Suc Cons.IH [of k] show ?thesis by auto
    qed
  qed
qed

subsection \<open>Days and the slot grid\<close>

lemma localDay_setHours:
  "0 \<le> h * 3600000 + m * 60000 \<Longrightarrow> h * 3600000 + m * 60000 < 86400000 \<Longrightarrow>
     localDay tz (setHours tz d h m) = localDay tz d"
proof -
  assume a: "0 \<le> h * 3600000 + m * 60000" and b: "h * 3600000 + m * 60000 < 86400000"
  have "(localDay tz d * 86400000 + (h * 3600000 + m * 60000)) div 86400000 = localDay tz d"
    using a b by (simp add: div_pos_pos_trivial)
  then show ?thesis
    by (simp add: setHours_def localDay_def [of tz "_ - tz"] add.assoc)
qed

lemma localDay_midnight: "localDay tz (setHours tz d 0 0) = localDay tz d"
  by (rule localDay_setHours) simp_all

lemma setHours_setHours: "setHours tz (setHours tz d 0 0) h m = setHours tz d h m"
  unfolding setHours_def [of tz "setHours tz d 0 0"] localDay_midnight
  by (simp add: setHours_def)

lemma buildSlots_available: "slot \<in> set (buildSlots c l e) \<Longrightarrow> available slot"
proof (induction c l e rule: buildSlots.induct)
  case (1 c l e)
  then show ?case
    by (subst (asm) (2) buildSlots.simps) (auto simp: Let_def split: if_splits)
qed

lemma buildSlots_Cons:
  "c < l \<Longrightarrow> c + 900000 \<le> e \<Longrightarrow>
     buildSlots c l e = \<lparr>s_start = c, s_end = c + 900000, available = True\<rparr> # buildSlots (c + 900000) l e"
  by (subst buildSlots.simps) (simp add: Let_def)

lemma buildSlots_length:
  "(\<forall>k < n. c + 900000 * int k < l \<and> c + 900000 * (int k + 1) \<le> e) \<Longrightarrow>
     n \<le> length (buildSlots c l e)"
proof (induction n arbitrary: c)
  case 0
  then show ?case by simp
next
  case (Suc n)
  from Suc.prems have h: "c < l" "c + 900000 \<le> e"
    by (auto dest: spec [of _ 0])
  have "\<forall>k < n. (c + 900000) + 900000 * int k < l \<and> (c + 900000) + 900000 * (int k + 1) \<le> e"
  proof (intro allI impI)
    fix k assume "k < n"
    then have "Suc k < Suc n" by simp
    with Suc.prems have "c + 900000 * int (Suc k) < l \<and> c + 900000 * (int (Suc k) + 1) \<le> e"
      by blast
    then show "(c + 900000) + 900000 * int k < l \<and> (c + 900000) + 900000 * (int k + 1) \<le> e"
      by (simp add: algebra_simps)
  qed
  then have "n \<le> length (buildSlots (c + 900000) l e)"
    by (rule Suc.IH)
  then show ?case
    by (simp add: buildSlots_Cons [OF h])
qed

lemma markSlots_Nil: "markSlots [] slots = slots"
  by (simp add: markSlots_def)

lemma ceilDiv_pos: "0 < d \<Longrightarrow> 0 < ceilDiv d 15"
  unfolding ceilDiv_def by presburger

lemma ceilDiv_bounds: "15 * (ceilDiv d 15 - 1) < d \<and> d \<le> 15 * ceilDiv d 15"
  unfolding ceilDiv_def by presburger

lemma windowStart_aligned:
  "\<exists>k. setHours tz date dayEnd 0 - windowStart tz clock date cur = 900000 * k"
proof -
  have *: "\<exists>k. setHours tz date dayEnd 0 - setHours tz (setHours tz date dayStart 0) h (15 * c) = 900000 * k"
    for h c
  proof -
    have "localDay tz (setHours tz date dayStart 0) = localDay tz date"
      by (rule localDay_setHours) (simp_all add: dayStart_def)
    then have "setHours tz date dayEnd 0 - setHours tz (setHours tz date dayStart 0) h (15 * c)
          = 900000 * (4 * dayEnd - 4 * h - c)"
      by (simp add: setHours_def [of tz "setHours tz date dayStart 0"])
         (simp add: setHours_def algebra_simps)
    then show ?thesis by blast
  qed
  have **: "\<exists>k. setHours tz date dayEnd 0 - setHours tz date dayStart 0 = 900000 * k"
  proof -
    have "setHours tz date dayEnd 0 - setHours tz date dayStart 0 = 900000 * (4 * dayEnd - 4 * dayStart)"
      by (simp add: setHours_def algebra_simps)
    then show ?thesis by blast
  qed
  show ?thesis
    unfolding windowStart_def Let_def
    using * [of _ 0] * [of _ "ceilDiv _ 15"] **
    by (auto simp: mult.commute)
qed


lemma js_slice_take:
  "0 \<le> n \<Longrightarrow> nat n \<le> length xs \<Longrightarrow> js_slice xs 0 (0 + n) = take (nat n) xs"
proof -
  assume a: "0 \<le> n" "nat n \<le> length xs"
  then have "n \<le> int (length xs)" by linarith
  with a show ?thesis
    by (simp add: js_slice_def Let_def min_def)
qed

lemma findAvailableSlot_empty:
  assumes d: "0 < d"
    and day: "\<not> localDay tz date < localDay tz clock"
    and room: "windowStart tz clock date cur + (15 * (ceilDiv d 15 - 1) + d) * 60000
                 < setHours tz date dayEnd 0"
  shows "findAvailableSlot tz clock [] d date cur None cwt =
           Inr (Some (windowStart tz clock date cur, windowStart tz clock date cur + d * 60000))"
proof -
  let ?ws = "windowStart tz clock date cur"
  let ?e = "setHours tz date dayEnd 0"
  let ?l = "?e - d * 60000"
  let ?req = "ceilDiv d 15"
  let ?slots = "buildSlots ?ws ?l ?e"
  have req: "0 < ?req" using d by (rule ceilDiv_pos)
  have bd: "15 * (?req - 1) < d" using ceilDiv_bounds [of d] by simp
  obtain k where al: "?e - ?ws = 900000 * k"
    using windowStart_aligned [of tz date clock cur] by blast
  have last: "?ws + 900000 * (?req - 1) < ?l"
    using room by (simp add: algebra_simps)
  have "900000 * (?req - 1) < 900000 * k"
    using last al d by linarith
  then have "?req \<le> k" by simp
  then have fit: "?ws + 900000 * ?req \<le> ?e"
    using al by linarith
  have grid: "\<forall>j < nat ?req. ?ws + 900000 * int j < ?l \<and> ?ws + 900000 * (int j + 1) \<le> ?e"
  proof (intro allI impI)
    fix j assume "j < nat ?req"
    then have "int j \<le> ?req - 1" by simp
    then have "900000 * int j \<le> 900000 * (?req - 1)" "900000 * (int j + 1) \<le> 900000 * ?req"
      by simp_all
    then show "?ws + 900000 * int j < ?l \<and> ?ws + 900000 * (int j + 1) \<le> ?e"
      using last fit by linarith
  qed
  then have len: "nat ?req \<le> length ?slots"
    by (rule buildSlots_length)
  have "0 \<le> 900000 * (?req - 1)" "900000 \<le> 900000 * ?req"
    using req by simp_all
  then have ws_l: "?ws < ?l" and ws_e: "?ws + 900000 \<le> ?e"
    using last fit by linarith+
  have slots: "?slots = \<lparr>s_start = ?ws, s_end = ?ws + 900000, available = True\<rparr>
                 # buildSlots (?ws + 900000) ?l ?e"
    using ws_l ws_e by (rule buildSlots_Cons)
  have "take (nat ?req) ?slots = hd ?slots # take (nat ?req - 1) (tl ?slots)"
    using req len by (cases ?slots) (auto simp: take_Cons')
  then obtain more where tk: "take (nat ?req) ?slots
      = \<lparr>s_start = ?ws, s_end = ?ws + 900000, available = True\<rparr> # more"
    using slots by simp
  have av: "list_all available (take (nat ?req) ?slots)"
    unfolding list_all_iff using buildSlots_available [of _ ?ws ?l ?e]
    by (blast dest: in_set_takeD)
  have sl: "js_slice ?slots 0 ?req = take (nat ?req) ?slots"
    using req len js_slice_take [of ?req ?slots] by simp
  have cs: "js_slice ?slots 0 ?req
      = \<lparr>s_start = ?ws, s_end = ?ws + 900000, available = True\<rparr> # more"
    using sl tk by simp
  have avm: "list_all available more"
    using av tk by simp
  have body: "scanBody [] ?slots d ?e ?req None cwt 0 = Return (?ws, ?ws + d * 60000)"
    using ws_l by (simp add: scanBody_def Let_def cs avm)
  have "0 < nat (int (length ?slots) - ?req + 1)"
    using len req by linarith
  then obtain rest where idx: "[0 ..< nat (int (length ?slots) - ?req + 1)] = 0 # rest"
    by (auto simp: upt_conv_Cons)
  have nd: "\<not> setHours tz date 0 0 < setHours tz clock 0 0"
    using day by (simp add: setHours_def)
  show ?thesis
    unfolding findAvailableSlot_def Let_def
    by (simp add: nd idx body markSlots_Nil)
qed


lemma eligible_overdue:
  "\<not> completed t \<Longrightarrow> scheduledTime t = None \<Longrightarrow> localDay tz (deadline t) < localDay tz clock \<Longrightarrow>
     \<not> localDay tz date < localDay tz clock \<Longrightarrow> eligible tz clock date (Some clock) t"
  by (simp add: eligible_def Let_def nowOf_def setHours_def)

subsection \<open>Exceptions\<close>

lemma updateFirst_found: "find P xs = Some x \<Longrightarrow> f x \<in> set (updateFirst P f xs)"
  by (induction xs) (auto split: if_splits)

lemma updateFirst_unique:
  assumes "distinct (map u_id xs)" and "find (\<lambda>b. u_id b = bid) xs = Some x"
    and "\<And>y. u_id (f y) = u_id y"
    and "b \<in> set (updateFirst (\<lambda>b. u_id b = bid) f xs)" and "u_id b = bid"
  shows "b = f x"
  using assms(1,2,4)
proof (induction xs)
  case Nil
  then show ?case by simp
next
  case (Cons y ys)
  show ?case
  proof (cases "u_id y = bid")
    case True
    with Cons.prems have x: "x = y" and "b = f y \<or> b \<in> set ys" by auto
    moreover have "b \<notin> set ys"
      using Cons.prems(1) True assms(5) by (auto simp: image_iff)
    ultimately show ?thesis by simp
  next
    case False
    with Cons.prems assms(5) have "b \<in> set (updateFirst (\<lambda>b. u_id b = bid) f ys)"
      by auto
    with Cons False show ?thesis by simp
  qed
qed

lemma u_id_addException: "u_id (addException b d) = u_id b"
  by (simp add: addException_def Let_def split: option.splits)

lemma shouldInclude_after_exception:
  assumes "recurring blk = Some r" and "isoDateString D = localDay tz D"
    and "localDay tz date = localDay tz D"
  shows "\<not> shouldIncludeBlock tz (addException blk D) date"
  using assms
  by (auto simp: shouldIncludeBlock_def addException_def Let_def js_includes_def localDateString_def)

lemma shouldInclude_next_day:
  assumes "recurring blk = Some r" and "r_type r = Daily" and "isoDateString D = localDay tz D"
    and "localDay tz date = localDay tz D + 1"
    and "localDay tz D + 1 \<notin> set (case exceptions r of None \<Rightarrow> [] | Some l \<Rightarrow> l)"
  shows "shouldIncludeBlock tz (addException blk D) date"
  using assms
  by (auto simp: shouldIncludeBlock_def addException_def Let_def js_includes_def localDateString_def
           split: option.splits)

lemma addException_scheduler:
  assumes "find (\<lambda>b. u_id b = bid) (unavailableBlocks s) = Some blk" and "recurring blk = Some r"
  shows "unavailableBlocks (snd (addExceptionToRecurringBlock s bid D)\<lparr>tasks := ts\<rparr>)
         = updateFirst (\<lambda>b. u_id b = bid) (\<lambda>b. addException b D) (unavailableBlocks s)"
  using assms by (simp add: addExceptionToRecurringBlock_def)

lemma breaksLoop_id: "block \<in> set (breaksLoop c xs) \<Longrightarrow> \<exists>a b. b_id block = BreakId a b"
proof (induction c xs rule: breaksLoop.induct)
  case (1 c cur nxt rest)
  obtain r c' where bb: "breakBetween c cur nxt = (r, c')"
    by (cases "breakBetween c cur nxt")
  show ?case
  proof (cases r)
    case None
    with 1 bb show ?thesis by auto
  next
    case (Some brk)
    from bb Some have "b_id brk = BreakId (b_id cur) (b_id nxt)"
      by (auto simp: breakBetween_def Let_def split: if_splits)
    with 1 bb Some show ?thesis by auto
  qed
qed simp_all

lemma placeLoop_keeps:
  assumes "placeLoop tz clock date cur ts tt thisTasks lst cwt = Inr (tt', thisTasks')"
    and "block \<in> set tt"
  shows "block \<in> set tt'"
  by (rule placeLoop_invariant [where I = "\<lambda>tt. block \<in> set tt", OF assms]) simp

lemma placeLoop_ids:
  assumes "placeLoop tz clock date cur ts tt thisTasks lst cwt = Inr (tt', thisTasks')"
    and "\<forall>block \<in> set tt. b_id block \<noteq> UnavailableId bid day"
  shows "\<forall>block \<in> set tt'. b_id block \<noteq> UnavailableId bid day"
  by (rule placeLoop_invariant [where I = "\<lambda>tt. \<forall>block \<in> set tt. b_id block \<noteq> UnavailableId bid day",
        OF assms]) (simp add: taskBlockFor_def)

lemma notCompleted_unavailable: "notCompleted (unavailableBlockFor tz blk date)"
  by (simp add: notCompleted_def unavailableBlockFor_def Let_def)

lemma localDay_next: "localDay tz (D + 86400000) = localDay tz D + 1"
  by (simp add: localDay_def add.assoc [symmetric] add.commute [of _ tz])

lemma fixedBlocks_set:
  "set (fixedBlocks tz clock s date) =
     (\<lambda>block. unavailableBlockFor tz block (setHours tz date 0 0)) `
        {block \<in> set (unavailableBlocks s). shouldIncludeBlock tz block (setHours tz date 0 0)}
     \<union> (\<lambda>task'. scheduledBlockFor tz task' (setHours tz date 0 0) (the (scheduledTime task'))) `
        {task' \<in> set (tasks s). keptScheduled tz clock (setHours tz date 0 0) (currentTimeFor tz clock date) task'}"
  unfolding fixedBlocks_def addExistingScheduledTasks_eq addUnavailableBlocks_eq
  by auto

text \<open>The two timetables of the example, evaluated.\<close>

lemma exDaily_day_100:
  "generateTimetable 0 (at 100 9 0)
     (snd (addExceptionToRecurringBlock exDailyScheduler ''u'' (at 100 0 0))\<lparr>tasks := []\<rparr>) (at 100 0 0)
   = Inr ([unavailableBlockFor 0 exLunch (at 100 0 0)],
          \<lparr>tasks = [],
           unavailableBlocks = [exDaily\<lparr>recurring :=
              Some \<lparr>r_type = Daily, days = None, exceptions = Some [100]\<rparr>\<rparr>, exLunch]\<rparr>)"
  by code_simp

lemma exDaily_day_101:
  "generateTimetable 0 (at 100 9 0)
     (snd (addExceptionToRecurringBlock exDailyScheduler ''u'' (at 100 0 0))\<lparr>tasks := []\<rparr>)
     (at 100 0 0 + 86400000)
   = Inr ([unavailableBlockFor 0 exDaily (at 101 0 0), unavailableBlockFor 0 exLunch (at 101 0 0)],
          \<lparr>tasks = [],
           unavailableBlocks = [exDaily\<lparr>recurring :=
              Some \<lparr>r_type = Daily, days = None, exceptions = Some [100]\<rparr>\<rparr>, exLunch]\<rparr>)"
  by code_simp

subsection \<open>Pairs of blocks\<close>

lemma overlaps_sym: "overlaps a b \<longleftrightarrow> overlaps b a"
  by (auto simp: overlaps_def slotsOverlap_def)

lemma apart_sym: "apart a b \<longleftrightarrow> apart b a"
  using overlaps_sym [of a b] by (auto simp: apart_def)

lemma sorted_wrt_sym_nth:
  assumes "\<And>a b. P a b \<Longrightarrow> P b a"
  shows "sorted_wrt P xs \<longleftrightarrow> (\<forall>i < length xs. \<forall>j < length xs. i \<noteq> j \<longrightarrow> P (xs ! i) (xs ! j))"
proof
  assume s: "sorted_wrt P xs"
  show "\<forall>i < length xs. \<forall>j < length xs. i \<noteq> j \<longrightarrow> P (xs ! i) (xs ! j)"
  proof (intro allI impI)
    fix i j assume "i < length xs" "j < length xs" "i \<noteq> j"
    then consider "i < j" | "j < i" by linarith
    then show "P (xs ! i) (xs ! j)"
      using s assms \<open>i < length xs\<close> \<open>j < length xs\<close>
      by cases (auto simp: sorted_wrt_iff_nth_less)
  qed
next
  assume "\<forall>i < length xs. \<forall>j < length xs. i \<noteq> j \<longrightarrow> P (xs ! i) (xs ! j)"
  then show "sorted_wrt P xs"
    by (auto simp: sorted_wrt_iff_nth_less)
qed

lemma noOverlap_iff_nth:
  "noOverlap tt \<longleftrightarrow>
     (\<forall>i < length tt. \<forall>j < length tt. i \<noteq> j \<longrightarrow> \<not> overlaps (tt ! i) (tt ! j))"
  unfolding noOverlap_def
  by (rule sorted_wrt_sym_nth) (simp add: overlaps_sym)

lemma sorted_wrt_insort_key:
  assumes "\<And>a b. P a b \<Longrightarrow> P b a"
  shows "sorted_wrt P (insort_key f x xs) \<longleftrightarrow> (\<forall>y \<in> set xs. P x y) \<and> sorted_wrt P xs"
proof (induction xs)
  case Nil
  then show ?case by simp
next
  case (Cons y ys)
  have sym: "P x y \<longleftrightarrow> P y x"
    using assms by blast
  show ?case
    using Cons.IH by (auto simp: set_insort_key sym)
qed

lemma sorted_wrt_sort_key:
  assumes "\<And>a b. P a b \<Longrightarrow> P b a"
  shows "sorted_wrt P (sort_key f xs) \<longleftrightarrow> sorted_wrt P xs"
proof (induction xs)
  case Nil
  then show ?case by simp
next
  case (Cons x xs)
  have "sort_key f (x # xs) = insort_key f x (sort_key f xs)"
    by simp
  then show ?case
    using Cons sorted_wrt_insort_key [of P f x "sort_key f xs", OF assms] by simp
qed

lemma noOverlap_sort_key: "noOverlap (sort_key f xs) \<longleftrightarrow> noOverlap xs"
  unfolding noOverlap_def by (rule sorted_wrt_sort_key) (simp add: overlaps_sym)

lemma apart_sort_key: "sorted_wrt apart (sort_key f xs) \<longleftrightarrow> sorted_wrt apart xs"
  by (rule sorted_wrt_sort_key) (simp add: apart_sym)

lemma apart_iff_nth:
  "sorted_wrt apart xs \<longleftrightarrow>
     (\<forall>i < length xs. \<forall>j < length xs. i \<noteq> j \<longrightarrow> apart (xs ! i) (xs ! j))"
  by (rule sorted_wrt_sym_nth) (simp add: apart_sym)

lemma noOverlap_snoc:
  "noOverlap (tt @ [b]) \<longleftrightarrow> noOverlap tt \<and> (\<forall>x \<in> set tt. \<not> overlaps b x)"
  unfolding noOverlap_def sorted_wrt_append using overlaps_sym by auto

lemma placeLoop_noOverlap:
  assumes "placeLoop tz clock date cur ts tt thisTasks lst cwt = Inr (tt', thisTasks')"
    and "noOverlap tt"
  shows "noOverlap tt'"
proof (rule placeLoop_invariant [where I = noOverlap, OF assms])
  fix tt and task' :: Task and a b lst cwt
  assume "noOverlap tt"
    and "findAvailableSlot tz clock tt (duration task') date cur lst cwt = Inr (Some (a, b))"
  then show "noOverlap (tt @ [taskBlockFor tz task' date a b])"
    using findAvailableSlot_Some [of tz clock tt "duration task'" date cur lst cwt a b,
            THEN conjunct2, THEN conjunct2]
    by (simp add: noOverlap_snoc overlaps_def taskBlockFor_def)
qed

lemma placeLoop_properBlock:
  assumes "placeLoop tz clock date cur ts tt thisTasks lst cwt = Inr (tt', thisTasks')"
    and "\<forall>block \<in> set tt. properBlock block"
    and "\<forall>t \<in> set ts. 0 < duration t"
  shows "\<forall>block \<in> set tt'. properBlock block"
proof (rule placeLoop_invariant [where I = "\<lambda>tt. \<forall>block \<in> set tt. properBlock block", OF assms(1,2)])
  fix tt and task' :: Task and a b lst cwt
  assume "\<forall>block \<in> set tt. properBlock block" and "task' \<in> set ts"
    and "findAvailableSlot tz clock tt (duration task') date cur lst cwt = Inr (Some (a, b))"
  then show "\<forall>block \<in> set (tt @ [taskBlockFor tz task' date a b]). properBlock block"
    using findAvailableSlot_Some [of tz clock tt "duration task'" date cur lst cwt a b] assms(3)
    by (auto simp: properBlock_def taskBlockFor_def)
qed

lemma fixedBlocks_properBlock:
  assumes "\<forall>t \<in> set (tasks s). 0 < duration t" and "block \<in> set (fixedBlocks tz clock s date)"
  shows "properBlock block"
  using assms unfolding fixedBlocks_set
  by (auto simp: properBlock_def unavailableBlockFor_def scheduledBlockFor_def Let_def)

lemma set_tasksToPlace: "set (tasksToPlace tz clock s date) \<subseteq> set (tasks s)"
  by (auto simp: tasksToPlace_def prioritizeTasks_def getTasksForRescheduling_def)

subsection \<open>Breaks between task blocks\<close>

lemma chain_Cons:
  "chain (x # xs) \<longleftrightarrow> (\<forall>y \<in> set xs. endTime x \<le> startTime y) \<and> startTime x < endTime x \<and> chain xs"
  by (auto simp: chain_def)

lemma chainI:
  assumes "sorted (map startTime xs)" and "noOverlap xs" and "\<forall>x \<in> set xs. startTime x < endTime x"
  shows "chain xs"
  using assms
proof (induction xs)
  case Nil
  then show ?case by (simp add: chain_def)
next
  case (Cons x xs)
  have "endTime x \<le> startTime y" if "y \<in> set xs" for y
  proof -
    have "startTime x \<le> startTime y" "\<not> overlaps x y" "startTime y < endTime y"
      using Cons.prems that by (auto simp: noOverlap_def)
    then show ?thesis
      by (auto simp: overlaps_def slotsOverlap_def)
  qed
  moreover have "chain xs"
    using Cons by (simp add: noOverlap_def)
  ultimately show ?case
    using Cons.prems(3) by (simp add: chain_Cons)
qed

lemma breaksLoop_after:
  "chain (x # xs) \<Longrightarrow> brk \<in> set (breaksLoop c (x # xs)) \<Longrightarrow>
     endTime x \<le> startTime brk \<and> startTime brk < endTime brk"
proof (induction xs arbitrary: x c brk)
  case Nil
  then show ?case by simp
next
  case (Cons nxt rest)
  obtain r c' where bb: "breakBetween c x nxt = (r, c')"
    by (cases "breakBetween c x nxt")
  have ch: "chain (nxt # rest)" and le: "endTime x \<le> startTime nxt" and pos: "startTime nxt < endTime nxt"
    using Cons.prems(1) by (auto simp: chain_Cons)
  have later: "endTime x \<le> startTime b \<and> startTime b < endTime b"
    if "b \<in> set (breaksLoop c' (nxt # rest))" for b
    using Cons.IH [OF ch that] le pos by linarith
  show ?case
  proof (cases r)
    case None
    with Cons.prems(2) bb later show ?thesis by simp
  next
    case (Some new)
    with Cons.prems(2) bb consider "brk = new" | "brk \<in> set (breaksLoop c' (nxt # rest))"
      by auto
    then show ?thesis
    proof cases
      case 1
      then show ?thesis
        using breakBetween_Some [of c x nxt new c'] bb Some by simp
    next
      case 2
      then show ?thesis by (rule later)
    qed
  qed
qed

lemma breaksLoop_apart_tasks:
  "chain xs \<Longrightarrow> \<forall>brk \<in> set (breaksLoop c xs). \<forall>t \<in> set xs. \<not> overlaps brk t"
proof (induction c xs rule: breaksLoop.induct)
  case (1 c cur nxt rest)
  obtain r c' where bb: "breakBetween c cur nxt = (r, c')"
    by (cases "breakBetween c cur nxt")
  have ch: "chain (nxt # rest)" and le: "endTime cur \<le> startTime nxt"
    and pos: "startTime nxt < endTime nxt"
    and far: "\<forall>y \<in> set rest. endTime nxt \<le> startTime y"
    using "1.prems"(1) by (auto simp: chain_Cons)
  have IH: "\<forall>brk \<in> set (breaksLoop c' (nxt # rest)). \<forall>t \<in> set (nxt # rest). \<not> overlaps brk t"
    using "1.IH" bb ch by (cases r) auto
  have later: "\<not> overlaps b t"
    if b: "b \<in> set (breaksLoop c' (nxt # rest))" and t: "t \<in> set (cur # nxt # rest)" for b t
  proof (cases "t = cur")
    case True
    have "endTime nxt \<le> startTime b"
      using breaksLoop_after [OF ch b] by simp
    then show ?thesis
      using True le pos by (simp add: overlaps_def slotsOverlap_def)
  next
    case False
    with t have "t \<in> set (nxt # rest)" by simp
    then show ?thesis
      using IH b by blast
  qed
  show ?case
  proof (cases r)
    case None
    with bb later show ?thesis by simp
  next
    case (Some new)
    have n: "startTime new = endTime cur" "endTime new \<le> startTime nxt"
      using breakBetween_Some [of c cur nxt new c'] bb Some by simp_all
    have "\<not> overlaps new t" if t: "t \<in> set (cur # nxt # rest)" for t
    proof (cases "t = cur")
      case True
      then show ?thesis using n by (simp add: overlaps_def slotsOverlap_def)
    next
      case False
      with t have "t = nxt \<or> t \<in> set rest" by auto
      then have "startTime nxt \<le> startTime t"
        using far pos by auto
      then show ?thesis using n by (simp add: overlaps_def slotsOverlap_def)
    qed
    with bb Some later show ?thesis by simp
  qed
qed simp_all

lemma breaksLoop_noOverlap: "chain xs \<Longrightarrow> noOverlap (breaksLoop c xs)"
proof (induction c xs rule: breaksLoop.induct)
  case (1 c cur nxt rest)
  obtain r c' where bb: "breakBetween c cur nxt = (r, c')"
    by (cases "breakBetween c cur nxt")
  have ch: "chain (nxt # rest)" and pos: "startTime nxt < endTime nxt"
    using "1.prems" by (auto simp: chain_Cons)
  show ?case
  proof (cases r)
    case None
    with 1 bb ch show ?thesis by simp
  next
    case (Some new)
    have n: "endTime new \<le> startTime nxt"
      using breakBetween_Some [of c cur nxt new c'] bb Some by simp
    have "\<not> overlaps new b" if "b \<in> set (breaksLoop c' (nxt # rest))" for b
      using breaksLoop_after [OF ch that] n pos by (simp add: overlaps_def slotsOverlap_def)
    moreover have "noOverlap (breaksLoop c' (nxt # rest))"
      using "1.IH"(2) bb Some ch by simp
    ultimately show ?thesis
      using bb Some by (simp add: noOverlap_def)
  qed
qed (simp_all add: noOverlap_def)

subsection \<open>Overlaps in the output\<close>

lemma generate_apart:
  assumes H1: "noOverlap (fixedBlocks tz clock s date)"
    and H2: "\<forall>t \<in> set (tasks s). 0 < duration t"
    and gen: "generateTimetable tz clock s date = Inr (out, s')"
  shows "sorted_wrt apart out"
  using gen
proof (cases rule: generateTimetable_InrE)
  case past
  then show ?thesis by simp
next
  case (placed tt thisTasks)
  let ?tb = "sort_key startTime (filter (\<lambda>block. b_type block = BTask) tt)"
  let ?breaks = "breaksLoop 0 ?tb"
  have no: "noOverlap tt"
    using placed(2) H1 by (rule placeLoop_noOverlap)
  have pos: "\<forall>t \<in> set (tasksToPlace tz clock s date). 0 < duration t"
    using H2 set_tasksToPlace [of tz clock s date] by blast
  have "\<forall>block \<in> set (fixedBlocks tz clock s date). properBlock block"
    using fixedBlocks_properBlock [OF H2] by blast
  then have pr: "\<forall>block \<in> set tt. properBlock block"
    using pos by (rule placeLoop_properBlock [OF placed(2)])
  have "noOverlap (filter (\<lambda>block. b_type block = BTask) tt)"
    using no unfolding noOverlap_def by (rule sorted_wrt_filter)
  then have "noOverlap ?tb"
    by (simp only: noOverlap_sort_key)
  moreover have "\<forall>x \<in> set ?tb. startTime x < endTime x"
    using pr by (auto simp: properBlock_def)
  ultimately have ch: "chain ?tb"
    using sorted_sort_key [of startTime] by (intro chainI) blast+
  have 1: "sorted_wrt apart tt"
    using no unfolding noOverlap_def
    by (rule sorted_wrt_mono_rel [rotated]) (simp add: apart_def)
  have "noOverlap ?breaks"
    using ch by (rule breaksLoop_noOverlap)
  then have 2: "sorted_wrt apart ?breaks"
    unfolding noOverlap_def
    by (rule sorted_wrt_mono_rel [rotated]) (simp add: apart_def)
  have 3: "apart x brk" if x: "x \<in> set tt" and b: "brk \<in> set ?breaks" for x brk
  proof (cases "b_type x")
    case BTask
    with x have "x \<in> set ?tb" by simp
    then have "\<not> overlaps brk x"
      using breaksLoop_apart_tasks [OF ch, of 0] b by blast
    then show ?thesis
      using overlaps_sym [of x brk] by (simp add: apart_def)
  next
    case BBreak
    with pr x show ?thesis by (auto simp: properBlock_def)
  next
    case BUnavailable
    then show ?thesis
      using breaksLoop_type [OF b] by (simp add: apart_def)
  qed
  have "sorted_wrt apart (insertIntelligentBreaks tt)"
    using 1 2 3 by (simp add: insertIntelligentBreaks_def Let_def sorted_wrt_append)
  then have "sorted_wrt apart (filter notCompleted (insertIntelligentBreaks tt))"
    by (rule sorted_wrt_filter)
  then show ?thesis
    unfolding placed(3) by (simp only: apart_sort_key)
qed

lemma reschedule_noOverlap:
  assumes "noOverlap tt" and "rescheduleTask tz clock s tid newStart (Some tt) = Inr (tt', s')"
  shows "noOverlap tt'"
proof (cases "tt' = tt")
  case True
  with assms(1) show ?thesis by simp
next
  case False
  with assms(2) obtain i t where i: "findIndex (\<lambda>block. taskId block = Some tid) tt = Some i"
    and t: "task (tt ! i) = Some t"
    and free: "\<not> conflictExists tt i newStart (newStart + duration t * 60000)"
    and tt': "tt' = tt[i := (tt ! i)\<lparr>startTime := newStart, endTime := newStart + duration t * 60000,
                                     task := Some (t\<lparr>scheduledTime := Some newStart\<rparr>)\<rparr>]"
    by (auto simp: rescheduleTask_def Let_def split: option.splits if_splits)
  let ?b = "(tt ! i)\<lparr>startTime := newStart, endTime := newStart + duration t * 60000,
                     task := Some (t\<lparr>scheduledTime := Some newStart\<rparr>)\<rparr>"
  have new: "\<not> overlaps ?b (tt ! j)" if "j < length tt" "j \<noteq> i" for j
    using free that by (auto simp: conflictExists_iff overlaps_def)
  show ?thesis
    unfolding noOverlap_iff_nth tt'
  proof (intro allI impI)
    fix j k
    assume "j < length (tt[i := ?b])" "k < length (tt[i := ?b])" "j \<noteq> k"
    then have jk: "j < length tt" "k < length tt" "j \<noteq> k" by simp_all
    show "\<not> overlaps (tt[i := ?b] ! j) (tt[i := ?b] ! k)"
    proof (cases "j = i")
      case True
      with jk new [of k] show ?thesis by simp
    next
      case ji: False
      show ?thesis
      proof (cases "k = i")
        case True
        with jk ji new [of j] overlaps_sym [of ?b "tt ! j"] show ?thesis by simp
      next
        case False
        with jk ji assms(1) show ?thesis by (simp add: noOverlap_iff_nth)
      qed
    qed
  qed
qed

lemma exBreaks_timetable:
  "outputOf (generateTimetable 0 (at 100 9 0) exBreaks (at 101 0 0)) = Inr exBreaksOutput"
  by code_simp

subsection \<open>The window of a slot\<close>

lemma buildSlots_start: "slot \<in> set (buildSlots c l e) \<Longrightarrow> c \<le> s_start slot"
proof (induction c l e rule: buildSlots.induct)
  case (1 c l e)
  from "1.prems" have "c < l"
    by (subst (asm) buildSlots.simps) (auto split: if_splits)
  with "1.prems" consider "s_start slot = c" | "slot \<in> set (buildSlots (c + 15 * 60000) l e)"
    by (subst (asm) buildSlots.simps) (auto simp: Let_def split: if_splits)
  then show ?case
  proof cases
    case 1
    then show ?thesis by simp
  next
    case 2
    with "1.IH" \<open>c < l\<close> have "c + 15 * 60000 \<le> s_start slot" by simp
    then show ?thesis by simp
  qed
qed

lemma markSlots_start:
  "slot \<in> set (markSlots tt slots) \<Longrightarrow> \<exists>slot' \<in> set slots. s_start slot' = s_start slot"
  unfolding markSlots_def
proof (induction tt arbitrary: slots)
  case Nil
  then show ?case by auto
next
  case (Cons block tt)
  from Cons.prems Cons.IH obtain mid where
    "mid \<in> set (map (\<lambda>slot. if slotsOverlap (s_start slot) (s_end slot) (startTime block) (endTime block)
                         then slot\<lparr>available := False\<rparr> else slot) slots)"
    "s_start mid = s_start slot"
    by fastforce
  then show ?case
    by (auto split: if_splits)
qed

lemma findAvailableSlot_window:
  assumes "findAvailableSlot tz clock tt d date cur lst cwt = Inr (Some (a, b))"
  shows "windowStart tz clock date cur \<le> a \<and> b \<le> setHours tz date dayEnd 0"
proof -
  let ?e = "setHours tz date dayEnd 0"
  let ?slots = "markSlots tt (buildSlots (windowStart tz clock date cur) (?e - d * 60000) ?e)"
  from assms obtain idxs where
    "scanSlots tt ?slots d ?e (ceilDiv d 15) lst cwt idxs = Inr (Some (a, b))"
    by (auto simp: findAvailableSlot_def Let_def split: if_splits)
  then have "b \<le> ?e" and "\<exists>slot \<in> set ?slots. s_start slot = a"
    using scanSlots_Some by blast+
  then show ?thesis
    using markSlots_start buildSlots_start by metis
qed

lemma exTwoTasks_timetable:
  "generateTimetable 0 (at 100 21 0) exTwoTasks (at 100 0 0)
     = Inr (take 2 exTimetable,
            \<lparr>tasks = [exTask ''a'' 30 (at 99 12 0) (Some (at 100 21 15)),
                      exTask ''b'' 15 (at 99 12 0) (Some (at 100 21 45))],
             unavailableBlocks = []\<rparr>)"
  by code_simp

section \<open>Termination without error\<close>

text \<open>
  The only error of the engine is the read of \<open>consecutiveSlots[0].start\<close> on an empty
  slice, which needs a task of duration zero or less. With positive durations
  \<open>generateTimetable\<close> always returns a timetable.
\<close>

lemma js_slice_window:
  assumes "0 \<le> n" and "int i + n \<le> int (length xs)"
  shows "js_slice xs (int i) (int i + n) = take (nat n) (drop i xs)"
proof -
  have "int i \<le> int (length xs)" using assms by linarith
  then show ?thesis
    using assms by (simp add: js_slice_def Let_def min_def)
qed

lemma scanBody_no_throw:
  assumes "0 < req" and "int i + req \<le> int (length slots)"
  shows "scanBody tt slots d e req lst cwt i \<noteq> Throw err"
proof -
  have "js_slice slots (int i) (int i + req) = take (nat req) (drop i slots)"
    using assms by (intro js_slice_window) simp_all
  moreover have "take (nat req) (drop i slots) \<noteq> []"
    using assms by auto
  ultimately have "js_slice slots (int i) (int i + req) \<noteq> []"
    by simp
  then obtain first more where "js_slice slots (int i) (int i + req) = first # more"
    by (auto simp: neq_Nil_conv)
  then show ?thesis
    by (simp add: scanBody_def Let_def)
qed

lemma scanSlots_no_throw:
  assumes "0 < req" and "\<forall>i \<in> set idxs. int i + req \<le> int (length slots)"
  shows "scanSlots tt slots d e req lst cwt idxs \<noteq> Inl err"
  using assms(2)
proof (induction idxs)
  case Nil
  then show ?case by simp
next
  case (Cons i rest)
  then show ?case
    using scanBody_no_throw [OF assms(1), of i slots tt d e lst cwt]
    by (cases "scanBody tt slots d e req lst cwt i") auto
qed

lemma findAvailableSlot_no_throw:
  assumes "0 < d"
  shows "findAvailableSlot tz clock tt d date cur lst cwt \<noteq> Inl err"
proof -
  have req: "0 < ceilDiv d 15" using assms by (rule ceilDiv_pos)
  have "scanSlots tt slots d e (ceilDiv d 15) lst cwt
          [0 ..< nat (int (length slots) - ceilDiv d 15 + 1)] \<noteq> Inl err" for slots e
    using req by (intro scanSlots_no_throw) auto
  then show ?thesis
    unfolding findAvailableSlot_def Let_def by simp
qed

lemma placeLoop_no_throw:
  "\<forall>t \<in> set ts. 0 < duration t \<Longrightarrow> placeLoop tz clock date cur ts tt thisTasks lst cwt \<noteq> Inl err"
proof (induction ts arbitrary: tt thisTasks lst cwt)
  case Nil
  then show ?case by simp
next
  case (Cons t ts)
  then have d: "0 < duration t" and rest: "\<forall>t \<in> set ts. 0 < duration t"
    by simp_all
  show ?case
  proof (cases "findAvailableSlot tz clock tt (duration t) date cur lst cwt")
    case (Inl e)
    with findAvailableSlot_no_throw [OF d] show ?thesis by blast
  next
    case (Inr r)
    then show ?thesis
      using Cons.IH [OF rest] by (cases r) (auto simp: Let_def)
  qed
qed

lemma generateTimetable_returns:
  assumes "\<forall>t \<in> set (tasks s). 0 < duration t"
  shows "\<exists>out s'. generateTimetable tz clock s date = Inr (out, s')"
proof -
  have "\<forall>t \<in> set (tasksToPlace tz clock s date). 0 < duration t"
    using assms set_tasksToPlace [of tz clock s date] by blast
  then have "placeLoop tz clock (setHours tz date 0 0) (currentTimeFor tz clock date)
               (tasksToPlace tz clock s date) (fixedBlocks tz clock s date) (tasks s) None 0 \<noteq> Inl err"
    for err
    by (rule placeLoop_no_throw)
  then show ?thesis
    unfolding generateTimetable_eq
    by (auto split: sum.splits)
qed

section \<open>Overlaps\<close>

text \<open>
  C1, as the specification states it, fails: two unavailable blocks that overlap are both
  copied into the timetable.
\<close>

theorem overlapping_unavailable_blocks:
  "outputOf (generateTimetable 0 (at 100 8 0) exOverlapping (at 100 0 0))
     = Inr [unavailableBlockFor 0 (exOneOff ''x'' (at 100 9 0) (at 100 11 0)) (at 100 0 0),
            unavailableBlockFor 0 (exOneOff ''y'' (at 100 10 0) (at 100 12 0)) (at 100 0 0)] \<and>
   overlaps (unavailableBlockFor 0 (exOneOff ''x'' (at 100 9 0) (at 100 11 0)) (at 100 0 0))
            (unavailableBlockFor 0 (exOneOff ''y'' (at 100 10 0) (at 100 12 0)) (at 100 0 0))"
  by code_simp

text \<open>
  A break is placed after a task without a look at the unavailable blocks, and may
  overlap one.
\<close>

lemma break_overlaps_unavailable:
  "b_type (exBreaksOutput ! 1) = BUnavailable \<and> b_type (exBreaksOutput ! 2) = BBreak \<and>
   overlaps (exBreaksOutput ! 1) (exBreaksOutput ! 2)"
  by code_simp

text \<open>
  C1, amended. When the tasks have positive durations and the fixed blocks of the date
  (the unavailable blocks that apply to it and the scheduled tasks kept for it) do not
  overlap one another, two blocks at distinct positions of an output of
  \<open>generateTimetable\<close> overlap only if one is a break and the other an unavailable block.
  And \<open>rescheduleTask\<close>, given a timetable in which no two blocks overlap, returns a
  timetable in which no two blocks overlap.
\<close>

theorem no_overlap_but_breaks:
  "(noOverlap (fixedBlocks tz clock s date) \<longrightarrow> (\<forall>t \<in> set (tasks s). 0 < duration t) \<longrightarrow>
      outputOf (generateTimetable tz clock s date) = Inr out \<longrightarrow>
      (\<forall>i < length out. \<forall>j < length out. i \<noteq> j \<longrightarrow> apart (out ! i) (out ! j))) \<and>
   (noOverlap tt \<longrightarrow> outputOf (rescheduleTask tz' clock' s2 tid newStart (Some tt)) = Inr tt' \<longrightarrow>
      (\<forall>i < length tt'. \<forall>j < length tt'. i \<noteq> j \<longrightarrow> \<not> overlaps (tt' ! i) (tt' ! j)))"
proof (intro conjI impI)
  assume fixed: "noOverlap (fixedBlocks tz clock s date)"
    and pos: "\<forall>t \<in> set (tasks s). 0 < duration t"
    and out: "outputOf (generateTimetable tz clock s date) = Inr out"
  from out obtain s' where "generateTimetable tz clock s date = Inr (out, s')"
    by (cases "generateTimetable tz clock s date") (auto simp: outputOf_def)
  with fixed pos have "sorted_wrt apart out"
    by (rule generate_apart)
  then show "\<forall>i < length out. \<forall>j < length out. i \<noteq> j \<longrightarrow> apart (out ! i) (out ! j)"
    by (simp only: apart_iff_nth)
next
  assume no: "noOverlap tt"
    and out: "outputOf (rescheduleTask tz' clock' s2 tid newStart (Some tt)) = Inr tt'"
  from out obtain s' where "rescheduleTask tz' clock' s2 tid newStart (Some tt) = Inr (tt', s')"
    by (cases "rescheduleTask tz' clock' s2 tid newStart (Some tt)") (auto simp: outputOf_def)
  with no have "noOverlap tt'"
    by (rule reschedule_noOverlap)
  then show "\<forall>i < length tt'. \<forall>j < length tt'. i \<noteq> j \<longrightarrow> \<not> overlaps (tt' ! i) (tt' ! j)"
    by (simp only: noOverlap_iff_nth)
qed

theorem no_overlap_but_breaks_witness:
  "outputOf (generateTimetable 0 (at 100 9 0) exBreaks (at 101 0 0)) = Inr exBreaksOutput \<and>
   sorted_wrt apart exBreaksOutput \<and>
   outputOf (rescheduleTask 0 (at 100 21 0) exTwoTasks ''b'' (at 100 20 0) (Some (take 2 exTimetable)))
     = Inr ((take 2 exTimetable)[1 := (exTimetable ! 1)
              \<lparr>startTime := at 100 20 0, endTime := at 100 20 15,
               task := Some (exTask ''b'' 15 (at 99 12 0) (Some (at 100 20 0)))\<rparr>]) \<and>
   noOverlap ((take 2 exTimetable)[1 := (exTimetable ! 1)
              \<lparr>startTime := at 100 20 0, endTime := at 100 20 15,
               task := Some (exTask ''b'' 15 (at 99 12 0) (Some (at 100 20 0)))\<rparr>])"
proof -
  let ?moved = "(take 2 exTimetable)[1 := (exTimetable ! 1)
              \<lparr>startTime := at 100 20 0, endTime := at 100 20 15,
               task := Some (exTask ''b'' 15 (at 99 12 0) (Some (at 100 20 0)))\<rparr>]"
  have h1: "noOverlap (fixedBlocks 0 (at 100 9 0) exBreaks (at 101 0 0))"
    by code_simp
  have h2: "\<forall>t \<in> set (tasks exBreaks). 0 < duration t"
    by (simp add: exBreaks_def exTask_def)
  have h3: "noOverlap (take 2 exTimetable)"
    by code_simp
  have h4: "outputOf (rescheduleTask 0 (at 100 21 0) exTwoTasks ''b'' (at 100 20 0)
                        (Some (take 2 exTimetable))) = Inr ?moved"
    by code_simp
  note inst = no_overlap_but_breaks [where tz = 0 and clock = "at 100 9 0" and s = exBreaks
            and date = "at 101 0 0" and out = exBreaksOutput and tt = "take 2 exTimetable"
            and tz' = 0 and clock' = "at 100 21 0" and ?s2.0 = exTwoTasks and tid = "''b''"
            and newStart = "at 100 20 0" and tt' = ?moved]
  have "sorted_wrt apart exBreaksOutput"
    unfolding apart_iff_nth using inst h1 h2 exBreaks_timetable by blast
  moreover have "noOverlap ?moved"
    unfolding noOverlap_iff_nth using inst h3 h4 by blast
  ultimately show ?thesis
    using exBreaks_timetable h4 by blast
qed

section \<open>Past dates\<close>

text \<open>
  C6. When the calendar day of the target date is strictly before the calendar day of
  the clock, \<open>generateTimetable\<close> returns the empty sequence, whatever the tasks and the
  unavailable blocks of the scheduler are (and leaves the scheduler as it was).
\<close>

theorem generateTimetable_past_date:
  "localDay tz date < localDay tz clock \<Longrightarrow> generateTimetable tz clock s date = Inr ([], s)"
  by (simp add: generateTimetable_def Let_def setHours_def)

theorem generateTimetable_past_date_witness:
  "localDay 0 (at 99 2 0) < localDay 0 (at 100 1 0) \<and>
   generateTimetable 0 (at 100 1 0) exOneTask (at 99 2 0) = Inr ([], exOneTask)"
proof -
  have h: "localDay 0 (at 99 2 0) < localDay 0 (at 100 1 0)"
    by (simp add: localDay_def at_def)
  show ?thesis
    using h generateTimetable_past_date [OF h] by simp
qed

section \<open>Order of the output\<close>

text \<open>
  C9. The sequence returned by \<open>generateTimetable\<close> is sorted in non-decreasing order
  of \<open>startTime\<close>, for every input on which it returns.
\<close>

theorem generateTimetable_sorted:
  "generateTimetable tz clock s date = Inr (timetable, s') \<Longrightarrow> sorted (map startTime timetable)"
  by (auto simp: generateTimetable_def Let_def split: if_splits sum.splits)

theorem generateTimetable_sorted_witness:
  "generateTimetable 0 (at 100 21 0) exTwoTasks (at 100 0 0)
     = Inr ([taskBlockFor 0 (exTask ''a'' 30 (at 99 12 0) None) (at 100 0 0) (at 100 21 15) (at 100 21 45),
             taskBlockFor 0 (exTask ''b'' 15 (at 99 12 0) None) (at 100 0 0) (at 100 21 45) (at 100 22 0)],
            \<lparr>tasks = [exTask ''a'' 30 (at 99 12 0) (Some (at 100 21 15)),
                      exTask ''b'' 15 (at 99 12 0) (Some (at 100 21 45))],
             unavailableBlocks = []\<rparr>) \<and>
   sorted (map startTime
     [taskBlockFor 0 (exTask ''a'' 30 (at 99 12 0) None) (at 100 0 0) (at 100 21 15) (at 100 21 45),
      taskBlockFor 0 (exTask ''b'' 15 (at 99 12 0) None) (at 100 0 0) (at 100 21 45) (at 100 22 0)])"
proof -
  have h: "generateTimetable 0 (at 100 21 0) exTwoTasks (at 100 0 0)
     = Inr ([taskBlockFor 0 (exTask ''a'' 30 (at 99 12 0) None) (at 100 0 0) (at 100 21 15) (at 100 21 45),
             taskBlockFor 0 (exTask ''b'' 15 (at 99 12 0) None) (at 100 0 0) (at 100 21 45) (at 100 22 0)],
            \<lparr>tasks = [exTask ''a'' 30 (at 99 12 0) (Some (at 100 21 15)),
                      exTask ''b'' 15 (at 99 12 0) (Some (at 100 21 45))],
             unavailableBlocks = []\<rparr>)"
    by code_simp
  show ?thesis
    using h generateTimetable_sorted [OF h] by blast
qed

section \<open>Determinism\<close>

text \<open>
  C2. Called with the same target date, task list, unavailable-block list and clock
  reading, the engine returns the same output whatever state an earlier call left in
  the scheduler object: two calls with identical arguments give identical sequences.
\<close>

theorem generateTimetable_deterministic:
  "outputOf (generateTimetableForDate tz clock s1 date ts blocks)
   = outputOf (generateTimetableForDate tz clock s2 date ts blocks)"
proof -
  have "setUnavailableBlocks (setTasks s1 ts) blocks = setUnavailableBlocks (setTasks s2 ts) blocks"
    by (simp add: setUnavailableBlocks_def setTasks_def)
  then show ?thesis
    by (simp add: generateTimetableForDate_def)
qed

text \<open>
  The reset of the task list matters: \<open>placeTasks\<close> records the slots it found in the
  scheduler's own task list, so \<open>generateTimetable\<close> called again on the same object,
  without \<open>setTasks\<close>, finds the tasks scheduled and returns them as kept blocks, under
  other identifiers.
\<close>

lemma regenerated_without_reset:
  "generateTimetable 0 (at 100 21 0) exTwoTasks (at 100 0 0)
     = Inr (take 2 exTimetable,
            \<lparr>tasks = [exTask ''a'' 30 (at 99 12 0) (Some (at 100 21 15)),
                      exTask ''b'' 15 (at 99 12 0) (Some (at 100 21 45))],
             unavailableBlocks = []\<rparr>) \<and>
   outputOf (generateTimetable 0 (at 100 21 0)
     \<lparr>tasks = [exTask ''a'' 30 (at 99 12 0) (Some (at 100 21 15)),
               exTask ''b'' 15 (at 99 12 0) (Some (at 100 21 45))],
      unavailableBlocks = []\<rparr> (at 100 0 0))
     = Inr [scheduledBlockFor 0 (exTask ''a'' 30 (at 99 12 0) (Some (at 100 21 15))) (at 100 0 0) (at 100 21 15),
            scheduledBlockFor 0 (exTask ''b'' 15 (at 99 12 0) (Some (at 100 21 45))) (at 100 0 0) (at 100 21 45)]"
  by code_simp

section \<open>The prioritizer\<close>

lemma getScore_eq:
  "getScore now t = deadlineUrgency now t + priorityScores (priority t) + typeScores (t_type t)
                     - lengthPenalty (duration t)"
  by (simp add: getScore_def lengthPenalty_def Let_def)

text \<open>
  C3, as the specification states it, fails: a task of 200 minutes loses 25 points for
  its length, not 15, because both reductions of \<open>getScore\<close> apply to it.
\<close>

theorem length_penalty_counterexample:
  "getScore 0 (exTask ''long'' 200 0 None) \<noteq>
     deadlineUrgency 0 (exTask ''long'' 200 0 None)
       + priorityScores (priority (exTask ''long'' 200 0 None))
       + typeScores (t_type (exTask ''long'' 200 0 None))
       - lengthPenalty_spec (duration (exTask ''long'' 200 0 None))"
  by (simp add: getScore_def exTask_def lengthPenalty_spec_def Let_def)

text \<open>
  C3, amended. \<open>prioritizeTasks\<close> returns a permutation of its input, in descending
  order of the score, in which tasks of equal score keep their input order; the score is
  deadline urgency plus priority weight plus type weight minus a length penalty of 25
  when the duration exceeds 180, else 10 when it exceeds 120, else 0.
\<close>

theorem prioritizeTasks_stable_descending:
  "mset (prioritizeTasks clock ts d cur) = mset ts \<and>
   sorted_wrt (\<lambda>a b. getScore (nowOf clock cur) a \<ge> getScore (nowOf clock cur) b)
     (prioritizeTasks clock ts d cur) \<and>
   (\<forall>k. filter (\<lambda>t. getScore (nowOf clock cur) t = k) (prioritizeTasks clock ts d cur)
        = filter (\<lambda>t. getScore (nowOf clock cur) t = k) ts) \<and>
   (\<forall>t. getScore (nowOf clock cur) t =
          deadlineUrgency (nowOf clock cur) t + priorityScores (priority t) + typeScores (t_type t)
            - lengthPenalty (duration t))"
proof -
  let ?f = "\<lambda>t. - getScore (nowOf clock cur) t"
  have p: "prioritizeTasks clock ts d cur = sort_key ?f ts"
    by (simp add: prioritizeTasks_def)
  have "sorted (map ?f (sort_key ?f ts))"
    by (rule sorted_sort_key)
  then have s: "sorted_wrt (\<lambda>a b. getScore (nowOf clock cur) a \<ge> getScore (nowOf clock cur) b)
                  (sort_key ?f ts)"
    by (simp add: sorted_map)
  have st: "filter (\<lambda>t. getScore (nowOf clock cur) t = k) (sort_key ?f ts)
            = filter (\<lambda>t. getScore (nowOf clock cur) t = k) ts" for k
    using sort_key_stable [of ?f "- k" ts] by simp
  have m: "mset (sort_key ?f ts) = mset ts"
    by simp
  show ?thesis
    unfolding p using s st m getScore_eq by blast
qed

section \<open>The working window\<close>

text \<open>
  What the allocator does keep: a block that \<open>placeTasks\<close> appends starts at or after the
  window start that \<open>findAvailableSlot\<close> computed and ends at or before 23:00; and when
  the target date is today, the clock is past 06:00 and the clock plus 15 minutes is still
  today, that window start is later than the clock plus 14 minutes.
\<close>

lemma placeLoop_window:
  assumes "placeLoop tz clock date cur ts tt thisTasks lst cwt = Inr (tt', thisTasks')"
    and "block \<in> set tt'" and "block \<notin> set tt"
  shows "windowStart tz clock date cur \<le> startTime block \<and>
         endTime block \<le> setHours tz date dayEnd 0"
proof -
  let ?inside = "\<lambda>b. windowStart tz clock date cur \<le> startTime b \<and>
                      endTime b \<le> setHours tz date dayEnd 0"
  have "\<forall>b \<in> set tt'. b \<in> set tt \<or> ?inside b"
  proof (rule placeLoop_invariant [where I = "\<lambda>tt'. \<forall>b \<in> set tt'. b \<in> set tt \<or> ?inside b",
           OF assms(1)])
    show "\<forall>b \<in> set tt. b \<in> set tt \<or> ?inside b" by simp
  next
    fix tt'' and task' :: Task and a b lst cwt
    assume "\<forall>b \<in> set tt''. b \<in> set tt \<or> ?inside b"
      and "findAvailableSlot tz clock tt'' (duration task') date cur lst cwt = Inr (Some (a, b))"
    then show "\<forall>b \<in> set (tt'' @ [taskBlockFor tz task' date a b]). b \<in> set tt \<or> ?inside b"
      using findAvailableSlot_window [of tz clock tt'' "duration task'" date cur lst cwt a b]
      by (auto simp: taskBlockFor_def)
  qed
  with assms(2,3) show ?thesis by blast
qed

lemma windowStart_after_clock:
  assumes today: "localDay tz date = localDay tz clock"
    and late: "setHours tz date dayStart 0 < clock"
    and same: "localDay tz (clock + 15 * 60000) = localDay tz clock"
  shows "clock + 14 * 60000 < windowStart tz clock date (Some clock)"
proof -
  let ?x = "clock + 15 * 60000 + tz"
  let ?H = "getHours tz (clock + 15 * 60000)"
  let ?M = "getMinutes tz (clock + 15 * 60000)"
  let ?R = "ceilDiv ?M 15 * 15"
  let ?L = "localDay tz date"
  have L: "?x div 86400000 = ?L"
    using same today by (simp add: localDay_def)
  have d1: "?x = 86400000 * ?L + ?x mod 86400000"
    using L by (metis mult_div_mod_eq)
  have d2: "?x mod 86400000 = 3600000 * ?H + ?x mod 3600000"
  proof -
    have "(?x mod 86400000) mod 3600000 = ?x mod 3600000"
      by (rule mod_mod_cancel) simp
    then show ?thesis
      unfolding getHours_def by (metis mult_div_mod_eq)
  qed
  have d3: "?x mod 3600000 = 60000 * ?M + (?x mod 3600000) mod 60000"
    unfolding getMinutes_def by (metis mult_div_mod_eq)
  have b3: "(?x mod 3600000) mod 60000 < 60000" and b2: "?x mod 3600000 < 3600000"
    by simp_all
  have R: "?M \<le> ?R"
    using ceilDiv_bounds [of ?M] by simp
  have day: "localDay tz (setHours tz date dayStart 0) = ?L"
    by (rule localDay_setHours) (simp_all add: dayStart_def)
  have ws: "windowStart tz clock date (Some clock) =
          (if ?R \<ge> 60 then 86400000 * ?L + 3600000 * (?H + 1) - tz
           else 86400000 * ?L + 3600000 * ?H + 60000 * ?R - tz)"
    using today late
    by (simp add: windowStart_def Let_def nowOf_def toDateString_def
          setHours_def [of tz "setHours tz date dayStart 0"] day)
  show ?thesis
  proof (cases "?R \<ge> 60")
    case True
    then show ?thesis
      unfolding ws using d1 d2 b2 by simp
  next
    case False
    then show ?thesis
      unfolding ws using d1 d2 d3 b3 R by simp
  qed
qed

text \<open>
  C7 fails for the start of the window. At 23:50 the clock plus the 15-minute buffer is
  00:05 of the next day; its hour, 0, and its rounded minutes, 15, are written into the
  target day, so the window of today opens at 00:15 of today and a task is placed from
  00:15 to 01:15: before 06:00, and before the clock.
\<close>

theorem slot_before_window_at_2350:
  "generateTimetable 0 (at 100 23 50) exOneTask (at 100 0 0)
     = Inr ([taskBlockFor 0 (exTask ''a'' 60 (at 101 12 0) None) (at 100 0 0) (at 100 0 15) (at 100 1 15)],
            \<lparr>tasks = [exTask ''a'' 60 (at 101 12 0) (Some (at 100 0 15))], unavailableBlocks = []\<rparr>)
   \<and> at 100 0 15 < setHours 0 (at 100 0 0) dayStart 0
   \<and> at 100 0 15 < at 100 23 50"
  by code_simp


text \<open>
  The seconds of the clock are dropped as well: at 22:00:30 the window opens at 22:15:00,
  before the clock plus 15 minutes.
\<close>

lemma seconds_dropped:
  "outputOf (generateTimetable 0 (at 100 22 0 + 30000) exTwoTasks (at 100 0 0))
     = Inr [taskBlockFor 0 (exTask ''b'' 15 (at 99 12 0) None) (at 100 0 0) (at 100 22 15) (at 100 22 30)]
   \<and> at 100 22 15 < (at 100 22 0 + 30000) + 15 * 60000"
  by code_simp

section \<open>Task blocks\<close>

text \<open>
  C10. Every block of type task in the output of \<open>generateTimetable\<close> carries a task
  snapshot; its \<open>endTime\<close> is its \<open>startTime\<close> plus the snapshot's duration in minutes,
  and the snapshot's \<open>scheduledTime\<close> is the block's \<open>startTime\<close>.
\<close>

theorem task_block_interval:
  assumes "generateTimetable tz clock s date = Inr (timetable, s')"
    and "block \<in> set timetable" and "b_type block = BTask"
  shows "\<exists>t. task block = Some t \<and> endTime block = startTime block + duration t * 60000 \<and>
             scheduledTime t = Some (startTime block)"
proof -
  have "taskBlockOk block"
    using assms(1)
  proof (cases rule: generateTimetable_InrE)
    case past
    with assms(2) show ?thesis by simp
  next
    case (placed tt thisTasks)
    have "\<forall>block \<in> set tt. taskBlockOk block"
      using placeLoop_taskBlockOk [OF placed(2)] fixedBlocks_taskBlockOk by blast
    moreover have "block \<in> set (insertIntelligentBreaks tt)"
      using assms(2) placed(3) by simp
    ultimately show ?thesis
      using set_insertIntelligentBreaks [of block tt] breaks_taskBlockOk by blast
  qed
  with assms(3) show ?thesis
    by (auto simp: taskBlockOk_def split: option.splits)
qed

theorem task_block_interval_witness:
  "generateTimetable 0 (at 100 21 0) exTwoTasks (at 100 0 0)
     = Inr (take 2 exTimetable,
            \<lparr>tasks = [exTask ''a'' 30 (at 99 12 0) (Some (at 100 21 15)),
                      exTask ''b'' 15 (at 99 12 0) (Some (at 100 21 45))],
             unavailableBlocks = []\<rparr>) \<and>
   exTimetable ! 1 \<in> set (take 2 exTimetable) \<and> b_type (exTimetable ! 1) = BTask \<and>
   (\<exists>t. task (exTimetable ! 1) = Some t \<and>
        endTime (exTimetable ! 1) = startTime (exTimetable ! 1) + duration t * 60000 \<and>
        scheduledTime t = Some (startTime (exTimetable ! 1)))"
proof -
  have m: "exTimetable ! 1 \<in> set (take 2 exTimetable)"
    by (simp add: exTimetable_def)
  have k: "b_type (exTimetable ! 1) = BTask"
    by (simp add: exTimetable_def taskBlockFor_def)
  show ?thesis
    using exTwoTasks_timetable m k task_block_interval [OF exTwoTasks_timetable m k] by blast
qed

section \<open>The rescheduler\<close>

text \<open>
  C4, as the specification states it, fails: a block that names the task and carries no
  snapshot of it is matched, nothing else is in the timetable to overlap with, and the
  timetable comes back unchanged.
\<close>

theorem reschedule_without_snapshot:
  "taskId exBare = Some ''c'' \<and>
   outputOf (rescheduleTask 0 (at 100 21 0) exTwoTasks ''c'' (at 100 20 0) (Some [exBare]))
     = Inr [exBare] \<and>
   startTime exBare \<noteq> at 100 20 0"
  by code_simp

text \<open>
  C4, amended. \<open>rescheduleTask\<close> on a given timetable returns it unchanged when no block
  has the task identifier, when the first block that has it carries no task snapshot, and
  when the new interval \<open>[newStart, newStart + duration)\<close> of that block overlaps a block
  at another position; otherwise it returns the timetable in which that block alone is
  replaced, with its \<open>startTime\<close>, its \<open>endTime\<close> and the \<open>scheduledTime\<close> of its task
  snapshot set to the new interval.
\<close>

theorem rescheduleTask_effect:
  "((\<forall>block \<in> set tt. taskId block \<noteq> Some tid) \<longrightarrow>
      outputOf (rescheduleTask tz clock s tid newStart (Some tt)) = Inr tt) \<and>
   (\<forall>i t. i < length tt \<and> taskId (tt ! i) = Some tid \<and> (\<forall>j < i. taskId (tt ! j) \<noteq> Some tid) \<and>
          task (tt ! i) = Some t \<longrightarrow>
      outputOf (rescheduleTask tz clock s tid newStart (Some tt)) =
        Inr (if \<exists>j < length tt. j \<noteq> i \<and>
                  slotsOverlap newStart (newStart + duration t * 60000)
                    (startTime (tt ! j)) (endTime (tt ! j))
             then tt
             else tt[i := (tt ! i)\<lparr>startTime := newStart,
                                  endTime := newStart + duration t * 60000,
                                  task := Some (t\<lparr>scheduledTime := Some newStart\<rparr>)\<rparr>])) \<and>
   (\<forall>i. i < length tt \<and> taskId (tt ! i) = Some tid \<and> (\<forall>j < i. taskId (tt ! j) \<noteq> Some tid) \<and>
        task (tt ! i) = None \<longrightarrow>
      outputOf (rescheduleTask tz clock s tid newStart (Some tt)) = Inr tt)"
proof (intro conjI allI impI)
  assume "\<forall>block \<in> set tt. taskId block \<noteq> Some tid"
  then have "findIndex (\<lambda>block. taskId block = Some tid) tt = None"
    by (simp add: findIndex_None)
  then show "outputOf (rescheduleTask tz clock s tid newStart (Some tt)) = Inr tt"
    by (simp add: rescheduleTask_def outputOf_def)
next
  fix i t
  assume "i < length tt \<and> taskId (tt ! i) = Some tid \<and> (\<forall>j < i. taskId (tt ! j) \<noteq> Some tid) \<and>
          task (tt ! i) = Some t"
  then have f: "findIndex (\<lambda>block. taskId block = Some tid) tt = Some i" and t: "task (tt ! i) = Some t"
    by (simp_all add: findIndex_Some)
  show "outputOf (rescheduleTask tz clock s tid newStart (Some tt)) =
        Inr (if \<exists>j < length tt. j \<noteq> i \<and>
                  slotsOverlap newStart (newStart + duration t * 60000)
                    (startTime (tt ! j)) (endTime (tt ! j))
             then tt
             else tt[i := (tt ! i)\<lparr>startTime := newStart,
                                  endTime := newStart + duration t * 60000,
                                  task := Some (t\<lparr>scheduledTime := Some newStart\<rparr>)\<rparr>])"
    by (auto simp: rescheduleTask_def outputOf_def f t Let_def conflictExists_iff)
next
  fix i
  assume "i < length tt \<and> taskId (tt ! i) = Some tid \<and> (\<forall>j < i. taskId (tt ! j) \<noteq> Some tid) \<and>
        task (tt ! i) = None"
  then have f: "findIndex (\<lambda>block. taskId block = Some tid) tt = Some i" and t: "task (tt ! i) = None"
    by (simp_all add: findIndex_Some)
  show "outputOf (rescheduleTask tz clock s tid newStart (Some tt)) = Inr tt"
    by (simp add: rescheduleTask_def outputOf_def f t)
qed


theorem rescheduleTask_effect_witness:
  "outputOf (rescheduleTask 0 (at 100 21 0) exTwoTasks ''zz'' (at 100 20 0) (Some exTimetable))
     = Inr exTimetable \<and>
   outputOf (rescheduleTask 0 (at 100 21 0) exTwoTasks ''b'' (at 100 20 0) (Some exTimetable))
     = Inr (exTimetable[1 := (exTimetable ! 1)
              \<lparr>startTime := at 100 20 0, endTime := at 100 20 0 + 15 * 60000,
               task := Some (exTask ''b'' 15 (at 99 12 0) (Some (at 100 20 0)))\<rparr>]) \<and>
   outputOf (rescheduleTask 0 (at 100 21 0) exTwoTasks ''b'' (at 100 21 30) (Some exTimetable))
     = Inr exTimetable \<and>
   outputOf (rescheduleTask 0 (at 100 21 0) exTwoTasks ''c'' (at 100 20 0) (Some exTimetable))
     = Inr exTimetable"
proof -
  let ?t = "exTask ''b'' 15 (at 99 12 0) (Some (at 100 21 45))"
  have none: "\<forall>block \<in> set exTimetable. taskId block \<noteq> Some ''zz''"
    by (simp add: exTimetable_def exBare_def taskBlockFor_def exTask_def)
  have b: "1 < length exTimetable \<and> taskId (exTimetable ! 1) = Some ''b'' \<and>
           (\<forall>j < 1. taskId (exTimetable ! j) \<noteq> Some ''b'') \<and> task (exTimetable ! 1) = Some ?t"
    by (simp add: exTimetable_def exBare_def taskBlockFor_def exTask_def)
  have c: "2 < length exTimetable \<and> taskId (exTimetable ! 2) = Some ''c'' \<and>
           (\<forall>j < 2. taskId (exTimetable ! j) \<noteq> Some ''c'') \<and> task (exTimetable ! 2) = None"
    by (simp add: exTimetable_def exBare_def taskBlockFor_def exTask_def All_less_Suc numeral_2_eq_2)
  have free: "\<not> (\<exists>j < length exTimetable. j \<noteq> 1 \<and>
                  slotsOverlap (at 100 20 0) (at 100 20 0 + duration ?t * 60000)
                    (startTime (exTimetable ! j)) (endTime (exTimetable ! j)))"
    by (simp add: exTimetable_def exBare_def taskBlockFor_def exTask_def at_def slotsOverlap_def Ex_less_Suc)
  have busy: "\<exists>j < length exTimetable. j \<noteq> 1 \<and>
                  slotsOverlap (at 100 21 30) (at 100 21 30 + duration ?t * 60000)
                    (startTime (exTimetable ! j)) (endTime (exTimetable ! j))"
    by (simp add: exTimetable_def exBare_def taskBlockFor_def exTask_def at_def slotsOverlap_def Ex_less_Suc)
  have upd: "?t\<lparr>scheduledTime := Some (at 100 20 0)\<rparr> = exTask ''b'' 15 (at 99 12 0) (Some (at 100 20 0))"
    and dur: "duration ?t = 15"
    by (simp_all add: exTask_def)
  have 1: "outputOf (rescheduleTask 0 (at 100 21 0) exTwoTasks ''zz'' (at 100 20 0) (Some exTimetable))
     = Inr exTimetable"
    using rescheduleTask_effect [of exTimetable "''zz''" 0 "at 100 21 0" exTwoTasks "at 100 20 0"] none
    by blast
  have 2: "outputOf (rescheduleTask 0 (at 100 21 0) exTwoTasks ''b'' (at 100 20 0) (Some exTimetable))
     = Inr (exTimetable[1 := (exTimetable ! 1)
              \<lparr>startTime := at 100 20 0, endTime := at 100 20 0 + 15 * 60000,
               task := Some (exTask ''b'' 15 (at 99 12 0) (Some (at 100 20 0)))\<rparr>])"
    using rescheduleTask_effect [of exTimetable "''b''" 0 "at 100 21 0" exTwoTasks "at 100 20 0",
        THEN conjunct2, THEN conjunct1, rule_format, OF b] free
    by (simp only: if_False upd dur)
  have 3: "outputOf (rescheduleTask 0 (at 100 21 0) exTwoTasks ''b'' (at 100 21 30) (Some exTimetable))
     = Inr exTimetable"
    using rescheduleTask_effect [of exTimetable "''b''" 0 "at 100 21 0" exTwoTasks "at 100 21 30",
        THEN conjunct2, THEN conjunct1, rule_format, OF b] busy
    by (simp only: if_True)
  have 4: "outputOf (rescheduleTask 0 (at 100 21 0) exTwoTasks ''c'' (at 100 20 0) (Some exTimetable))
     = Inr exTimetable"
    using rescheduleTask_effect [of exTimetable "''c''" 0 "at 100 21 0" exTwoTasks "at 100 20 0",
        THEN conjunct2, THEN conjunct2, rule_format, OF c] .
  show ?thesis
    using 1 2 3 4 by blast
qed

section \<open>Carrying overdue tasks forward\<close>

text \<open>
  C8, as the specification states it, fails: at 22:00 the window of today opens at 22:15,
  a task of 60 minutes would end after 23:00, and the output is empty.
\<close>

theorem overdue_task_not_placed_late:
  "\<not> completed (exTask ''a'' 60 (at 99 12 0) None) \<and>
   scheduledTime (exTask ''a'' 60 (at 99 12 0) None) = None \<and>
   localDay 0 (deadline (exTask ''a'' 60 (at 99 12 0) None)) < localDay 0 (at 100 22 0) \<and>
   localDay 0 (at 100 0 0) = localDay 0 (at 100 22 0) \<and>
   outputOf (generateTimetableForDate 0 (at 100 22 0) newScheduler (at 100 0 0)
               [exTask ''a'' 60 (at 99 12 0) None] []) = Inr []"
  by code_simp

text \<open>
  C8, amended. A single incomplete task without \<open>scheduledTime\<close> whose deadline's day is
  before today is selected for today, and with no unavailable blocks the output for today
  is exactly one task block for it, starting at the allocator's window start, provided
  that its duration is positive and that the allocator's grid holds its granules: the
  window start (not before now) plus \<open>15 * (ceil(duration / 15) - 1) + duration\<close> minutes
  is before 23:00.
\<close>

theorem overdue_task_placed:
  assumes "\<not> completed t" and "scheduledTime t = None"
    and "localDay tz (deadline t) < localDay tz clock"
    and "localDay tz date = localDay tz clock"
    and "0 < duration t"
    and "clock \<le> windowStart tz clock (setHours tz date 0 0) (Some clock)"
    and "windowStart tz clock (setHours tz date 0 0) (Some clock)
           + (15 * (ceilDiv (duration t) 15 - 1) + duration t) * 60000
         < setHours tz date dayEnd 0"
  shows "outputOf (generateTimetableForDate tz clock s date [t] []) =
           Inr [taskBlockFor tz t (setHours tz date 0 0)
                  (windowStart tz clock (setHours tz date 0 0) (Some clock))
                  (windowStart tz clock (setHours tz date 0 0) (Some clock) + duration t * 60000)]"
proof -
  let ?s = "setUnavailableBlocks (setTasks s [t]) []"
  let ?d = "setHours tz date 0 0"
  let ?ws = "windowStart tz clock ?d (Some clock)"
  have ts: "tasks ?s = [t]" and ub: "unavailableBlocks ?s = []"
    using assms(1) by (simp_all add: setUnavailableBlocks_def setTasks_def)
  have day: "\<not> localDay tz date < localDay tz clock"
    using assms(4) by simp
  have cur: "currentTimeFor tz clock date = Some clock"
    using assms(4) by (simp add: currentTimeFor_def toDateString_def localDay_midnight)
  have fixed: "fixedBlocks tz clock ?s date = []"
    unfolding fixedBlocks_def addExistingScheduledTasks_eq addUnavailableBlocks_eq
    using assms(2) by (simp add: ts ub keptScheduled_def)
  have "eligible tz clock ?d (Some clock) t"
    using assms(1-3) day by (intro eligible_overdue) (simp_all add: localDay_midnight)
  then have place: "tasksToPlace tz clock ?s date = [t]"
    by (simp add: tasksToPlace_def cur getTasksForRescheduling_def ts prioritizeTasks_def)
  have slot: "findAvailableSlot tz clock [] (duration t) ?d (Some clock) None 0
                = Inr (Some (?ws, ?ws + duration t * 60000))"
    using assms(5) _ _
  proof (rule findAvailableSlot_empty)
    show "\<not> localDay tz ?d < localDay tz clock"
      using day by (simp add: localDay_midnight)
    show "?ws + (15 * (ceilDiv (duration t) 15 - 1) + duration t) * 60000 < setHours tz ?d dayEnd 0"
      using assms(7) by (simp add: setHours_setHours)
  qed
  have loop: "placeLoop tz clock ?d (Some clock) [t] [] [t] None 0
      = Inr ([taskBlockFor tz t ?d ?ws (?ws + duration t * 60000)],
             [t\<lparr>scheduledTime := Some ?ws\<rparr>])"
    by (simp add: slot Let_def)
  have nc: "notCompleted (taskBlockFor tz t ?d ?ws (?ws + duration t * 60000))"
    using assms(1) by (simp add: notCompleted_def taskBlockFor_def)
  have br: "insertIntelligentBreaks [taskBlockFor tz t ?d ?ws (?ws + duration t * 60000)]
              = [taskBlockFor tz t ?d ?ws (?ws + duration t * 60000)]"
    by (simp add: insertIntelligentBreaks_def Let_def taskBlockFor_def)
  show ?thesis
    unfolding generateTimetableForDate_def generateTimetable_eq outputOf_def
    using day by (simp add: cur fixed place ts loop br nc del: placeLoop.simps)
qed

theorem overdue_task_placed_witness:
  "outputOf (generateTimetableForDate 0 (at 100 21 0) newScheduler (at 100 0 0)
               [exTask ''a'' 30 (at 99 12 0) None] []) =
     Inr [taskBlockFor 0 (exTask ''a'' 30 (at 99 12 0) None) (at 100 0 0) (at 100 21 15) (at 100 21 45)]"
proof -
  let ?t = "exTask ''a'' 30 (at 99 12 0) None"
  have ws: "windowStart 0 (at 100 21 0) (setHours 0 (at 100 0 0) 0 0) (Some (at 100 21 0)) = at 100 21 15"
    by code_simp
  have d0: "setHours 0 (at 100 0 0) 0 0 = at 100 0 0"
    by code_simp
  have ws': "windowStart 0 (at 100 21 0) (at 100 0 0) (Some (at 100 21 0)) = at 100 21 15"
    using ws by (simp only: d0)
  have h1: "\<not> completed ?t" and h2: "scheduledTime ?t = None" and h5: "0 < duration ?t"
    by (simp_all add: exTask_def)
  have h3: "localDay 0 (deadline ?t) < localDay 0 (at 100 21 0)"
    by code_simp
  have h4: "localDay 0 (at 100 0 0) = localDay 0 (at 100 21 0)"
    by code_simp
  have h6: "at 100 21 0 \<le> windowStart 0 (at 100 21 0) (setHours 0 (at 100 0 0) 0 0) (Some (at 100 21 0))"
    by code_simp
  have h7: "windowStart 0 (at 100 21 0) (setHours 0 (at 100 0 0) 0 0) (Some (at 100 21 0))
           + (15 * (ceilDiv (duration ?t) 15 - 1) + duration ?t) * 60000
         < setHours 0 (at 100 0 0) dayEnd 0"
    by code_simp
  have e: "at 100 21 15 + duration ?t * 60000 = at 100 21 45"
    by code_simp
  show ?thesis
    using overdue_task_placed [OF h1 h2 h3 h4 h5 h6 h7, of newScheduler]
    by (simp only: ws' d0 e)
qed

section \<open>Exceptions of recurring blocks\<close>

text \<open>
  C5, as the specification states it, fails: when the day after \<open>D\<close> is before today,
  the timetable for it is empty and holds no block at all.
\<close>

theorem exception_next_day_in_past:
  "find (\<lambda>b. u_id b = ''u'') (unavailableBlocks exDailyScheduler) = Some exDaily \<and>
   recurring exDaily = Some \<lparr>r_type = Daily, days = None, exceptions = None\<rparr> \<and>
   outputOf (generateTimetable 0 (at 101 9 0)
               (snd (addExceptionToRecurringBlock exDailyScheduler ''u'' (at 99 0 0)))
               (at 99 0 0 + 86400000)) = Inr []"
  by code_simp

text \<open>
  C5, amended. Let the first block with identifier \<open>bid\<close> be a daily recurring block,
  let the identifiers of the unavailable blocks be distinct, and let the UTC calendar day
  of \<open>D\<close> be its local calendar day (the exception is recorded under the UTC day). After
  \<open>addExceptionToRecurringBlock\<close> for \<open>D\<close>, whatever the tasks are, an output of
  \<open>generateTimetable\<close> for \<open>D\<close> holds no unavailable block of \<open>bid\<close>, and, provided that
  the day after \<open>D\<close> is not before today and was not an exception already, an output for
  the day after \<open>D\<close> holds one.
\<close>

theorem exception_suppresses_occurrence:
  assumes found: "find (\<lambda>b. u_id b = bid) (unavailableBlocks s) = Some blk"
    and rec: "recurring blk = Some r" and daily: "r_type r = Daily"
    and ids: "distinct (map u_id (unavailableBlocks s))"
    and utc: "isoDateString D = localDay tz D"
    and notpast: "\<not> localDay tz (D + 86400000) < localDay tz clock"
    and notex: "localDay tz D + 1 \<notin> set (case exceptions r of None \<Rightarrow> [] | Some l \<Rightarrow> l)"
    and gen1: "generateTimetable tz clock (snd (addExceptionToRecurringBlock s bid D)\<lparr>tasks := ta\<rparr>) D
                 = Inr (out1, s1)"
    and gen2: "generateTimetable tz clock (snd (addExceptionToRecurringBlock s bid D)\<lparr>tasks := tb\<rparr>)
                 (D + 86400000) = Inr (out2, s2)"
  shows "(\<forall>block \<in> set out1. b_id block \<noteq> UnavailableId bid (localDay tz D)) \<and>
         (\<exists>block \<in> set out2. b_id block = UnavailableId bid (localDay tz D + 1) \<and>
                               b_type block = BUnavailable)"
proof
  let ?sa = "snd (addExceptionToRecurringBlock s bid D)\<lparr>tasks := ta\<rparr>"
  let ?sb = "snd (addExceptionToRecurringBlock s bid D)\<lparr>tasks := tb\<rparr>"
  let ?ubs = "updateFirst (\<lambda>b. u_id b = bid) (\<lambda>b. addException b D) (unavailableBlocks s)"
  have ua: "unavailableBlocks ?sa = ?ubs" and ub: "unavailableBlocks ?sb = ?ubs"
    using found rec by (rule addException_scheduler)+
  show "\<forall>block \<in> set out1. b_id block \<noteq> UnavailableId bid (localDay tz D)"
    using gen1
  proof (cases rule: generateTimetable_InrE)
    case past
    then show ?thesis by simp
  next
    case (placed tt thisTasks)
    have "\<forall>block \<in> set (fixedBlocks tz clock ?sa D). b_id block \<noteq> UnavailableId bid (localDay tz D)"
    proof
      fix block assume "block \<in> set (fixedBlocks tz clock ?sa D)"
      then consider (u) b where "b \<in> set ?ubs" "shouldIncludeBlock tz b (setHours tz D 0 0)"
            "block = unavailableBlockFor tz b (setHours tz D 0 0)"
        | (t) t where "block = scheduledBlockFor tz t (setHours tz D 0 0) (the (scheduledTime t))"
        unfolding fixedBlocks_set ua by auto
      then show "b_id block \<noteq> UnavailableId bid (localDay tz D)"
      proof cases
        case u
        have "u_id b \<noteq> bid"
        proof
          assume "u_id b = bid"
          then have "b = addException blk D"
            using updateFirst_unique [OF ids found _ u(1)] by (simp add: u_id_addException)
          then show False
            using u(2) shouldInclude_after_exception [OF rec utc, of "setHours tz D 0 0"]
            by (simp add: localDay_midnight)
        qed
        then show ?thesis
          by (simp add: u(3) unavailableBlockFor_def Let_def)
      next
        case t
        then show ?thesis by (simp add: scheduledBlockFor_def Let_def)
      qed
    qed
    then have "\<forall>block \<in> set tt. b_id block \<noteq> UnavailableId bid (localDay tz D)"
      by (rule placeLoop_ids [OF placed(2)])
    then have "\<forall>block \<in> set (insertIntelligentBreaks tt). b_id block \<noteq> UnavailableId bid (localDay tz D)"
      by (auto simp: insertIntelligentBreaks_def Let_def dest: breaksLoop_id)
    then show ?thesis
      by (simp add: placed(3))
  qed
  show "\<exists>block \<in> set out2. b_id block = UnavailableId bid (localDay tz D + 1) \<and>
                               b_type block = BUnavailable"
    using gen2
  proof (cases rule: generateTimetable_InrE)
    case past
    with notpast show ?thesis by simp
  next
    case (placed tt thisTasks)
    let ?d = "setHours tz (D + 86400000) 0 0"
    let ?b = "unavailableBlockFor tz (addException blk D) ?d"
    have "addException blk D \<in> set ?ubs"
      using found by (rule updateFirst_found)
    moreover have "shouldIncludeBlock tz (addException blk D) ?d"
      using rec daily utc _ notex
      by (rule shouldInclude_next_day) (simp add: localDay_next localDay_midnight)
    ultimately have "?b \<in> set (fixedBlocks tz clock ?sb (D + 86400000))"
      unfolding fixedBlocks_set ub by blast
    then have "?b \<in> set tt"
      by (rule placeLoop_keeps [OF placed(2)])
    then have "?b \<in> set out2"
      by (simp add: placed(3) insertIntelligentBreaks_def Let_def notCompleted_unavailable)
    moreover have "u_id blk = bid"
      using found by (auto simp: find_Some_iff)
    then have "b_id ?b = UnavailableId bid (localDay tz D + 1)"
      by (simp add: unavailableBlockFor_def Let_def toDateString_def localDay_next
            localDay_midnight u_id_addException)
    moreover have "b_type ?b = BUnavailable"
      by (simp add: unavailableBlockFor_def Let_def)
    ultimately show ?thesis by blast
  qed
qed


theorem exception_suppresses_occurrence_witness:
  "list_all (\<lambda>block. b_id block \<noteq> UnavailableId ''u'' (localDay 0 (at 100 0 0)))
     [unavailableBlockFor 0 exLunch (at 100 0 0)] \<and>
   list_ex (\<lambda>block. b_id block = UnavailableId ''u'' (localDay 0 (at 100 0 0) + 1) \<and>
                     b_type block = BUnavailable)
     [unavailableBlockFor 0 exDaily (at 101 0 0), unavailableBlockFor 0 exLunch (at 101 0 0)]"
proof -
  have found: "find (\<lambda>b. u_id b = ''u'') (unavailableBlocks exDailyScheduler) = Some exDaily"
    by (simp add: exDailyScheduler_def exDaily_def)
  have rec: "recurring exDaily = Some \<lparr>r_type = Daily, days = None, exceptions = None\<rparr>"
    by (simp add: exDaily_def)
  have daily: "r_type \<lparr>r_type = Daily, days = None, exceptions = None\<rparr> = Daily"
    by simp
  have ids: "distinct (map u_id (unavailableBlocks exDailyScheduler))"
    by (simp add: exDailyScheduler_def exDaily_def exLunch_def)
  have utc: "isoDateString (at 100 0 0) = localDay 0 (at 100 0 0)"
    by (simp add: isoDateString_def localDay_def)
  have notpast: "\<not> localDay 0 (at 100 0 0 + 86400000) < localDay 0 (at 100 9 0)"
    by (simp add: localDay_def at_def)
  have notex: "localDay 0 (at 100 0 0) + 1
      \<notin> set (case exceptions \<lparr>r_type = Daily, days = None, exceptions = None\<rparr> of
                None \<Rightarrow> [] | Some l \<Rightarrow> l)"
    by simp
  show ?thesis
    unfolding list_all_iff list_ex_iff
    by (rule exception_suppresses_occurrence
          [OF found rec daily ids utc notpast notex exDaily_day_100 exDaily_day_101])
qed

text \<open>
  East of UTC the local midnight of a day lies in the previous UTC day: the exception is
  recorded for the day before, and the block still appears on the day itself.
\<close>

lemma exception_missed_east_of_utc:
  "outputOf (generateTimetable 7200000 (at 100 9 0)
     (snd (addExceptionToRecurringBlock exDailyScheduler ''u'' (at 100 0 0 - 7200000)))
     (at 100 0 0 - 7200000))
   = Inr [unavailableBlockFor 7200000 exDaily (at 100 0 0 - 7200000),
          unavailableBlockFor 7200000 exLunch (at 100 0 0 - 7200000)]"
  by code_simp

end
